theory Spec2Isabelle
  imports Main
begin

section \<open>Python values used by the tokenizer\<close>

text \<open>
  A CSV field read by Python's \<^verbatim>\<open>csv\<close> module is a string. A row that is shorter than
  the header is padded by \<^verbatim>\<open>csv.DictReader\<close> with Python's \<^verbatim>\<open>None\<close>, so a cell of a
  record is \<open>Some s\<close> (the string \<open>s\<close>) or \<open>None\<close> (Python's \<^verbatim>\<open>None\<close>).
\<close>

type_synonym cell = "string option"

text \<open>
  A Python \<^verbatim>\<open>dict\<close> with string keys keeps its keys in insertion order; the order decides
  which token the reverse lookup of the tokenizer finds first. It is an association
  list whose keys are pairwise distinct.
\<close>

type_synonym 'v dict = "(string \<times> 'v) list"

definition dict_keys :: "'v dict \<Rightarrow> string list" where
  "dict_keys m = map fst m"

text \<open>\<^verbatim>\<open>k in m\<close>\<close>

definition dict_contains :: "'v dict \<Rightarrow> string \<Rightarrow> bool" where
  "dict_contains m k = (k \<in> set (dict_keys m))"

text \<open>\<^verbatim>\<open>m.get(k)\<close>: \<open>None\<close> when the key is absent.\<close>

definition dict_get :: "'v dict \<Rightarrow> string \<Rightarrow> 'v option" where
  "dict_get m k = map_of m k"

text \<open>
  \<^verbatim>\<open>m[k] = v\<close>: an existing key keeps its position and takes the new value, a new key
  is appended.
\<close>

fun dict_set :: "'v dict \<Rightarrow> string \<Rightarrow> 'v \<Rightarrow> 'v dict" where
  "dict_set [] k v = [(k, v)]"
| "dict_set ((k', v') # m) k v =
     (if k' = k then (k, v) # m else (k', v') # dict_set m k v)"

text \<open>
  The reverse lookup, written three times in the source (lines 50-52, 69-71 and 128):
  \<^verbatim>\<open>next((k for k, v in token_map.items() if v == original_value), None)\<close>.
\<close>

fun find_token :: "cell dict \<Rightarrow> cell \<Rightarrow> string option" where
  "find_token [] x = None"
| "find_token ((k, v) # m) x = (if v = x then Some k else find_token m x)"

section \<open>Python's \<^verbatim>\<open>str\<close> on a non-negative integer\<close>

definition digit_char :: "nat \<Rightarrow> char" where
  "digit_char d = char_of (48 + d)"

fun str_nat :: "nat \<Rightarrow> string" where
  "str_nat n =
     (if n < 10 then [digit_char n] else str_nat (n div 10) @ [digit_char (n mod 10)])"

declare str_nat.simps [simp del]

lemma digit_char_inj: "a < 10 \<Longrightarrow> b < 10 \<Longrightarrow> digit_char a = digit_char b \<Longrightarrow> a = b"
proof -
  assume a: "a < 10" and b: "b < 10" and e: "digit_char a = digit_char b"
  from e have "(of_char (char_of (48 + a)) :: nat) = of_char (char_of (48 + b))"
    by (simp add: digit_char_def)
  then have "(48 + a) mod 256 = (48 + b) mod 256"
    by (simp only: of_char_of)
  with a b show "a = b" by simp
qed

lemma str_nat_not_Nil: "str_nat n \<noteq> []"
  by (subst str_nat.simps) simp

lemma str_nat_inj: "str_nat n = str_nat m \<Longrightarrow> n = m"
proof (induction n arbitrary: m rule: str_nat.induct)
  case (1 n)
  show ?case
  proof (cases "n < 10")
    case True
    show ?thesis
    proof (cases "m < 10")
      case mlt: True
      from "1.prems" True mlt have "digit_char n = digit_char m"
        by (simp add: str_nat.simps)
      with True mlt show ?thesis by (rule digit_char_inj)
    next
      case False
      from "1.prems" True have "str_nat m = [digit_char n]"
        by (simp add: str_nat.simps)
      moreover from False
      have "str_nat m = str_nat (m div 10) @ [digit_char (m mod 10)]"
        by (subst str_nat.simps) simp
      ultimately have "str_nat (m div 10) = []" by simp
      then show ?thesis by (simp add: str_nat_not_Nil)
    qed
  next
    case False
    then have n: "str_nat n = str_nat (n div 10) @ [digit_char (n mod 10)]"
      by (subst str_nat.simps) simp
    show ?thesis
    proof (cases "m < 10")
      case True
      then have "str_nat m = [digit_char m]" by (simp add: str_nat.simps)
      with n "1.prems" have "str_nat (n div 10) = []" by simp
      then show ?thesis by (simp add: str_nat_not_Nil)
    next
      case mge: False
      then have m: "str_nat m = str_nat (m div 10) @ [digit_char (m mod 10)]"
        by (subst str_nat.simps) simp
      from n m "1.prems" have e1: "str_nat (n div 10) = str_nat (m div 10)"
        and e2: "digit_char (n mod 10) = digit_char (m mod 10)"
        by simp_all
      from "1.IH" [OF False e1] have d: "n div 10 = m div 10" .
      have "n mod 10 = m mod 10"
        by (rule digit_char_inj [OF _ _ e2]) simp_all
      with d show ?thesis by (metis div_mult_mod_eq)
    qed
  qed
qed

lemma str_nat_eq_iff [simp]: "str_nat n = str_nat m \<longleftrightarrow> n = m"
  by (auto dest: str_nat_inj)

section \<open>Token generators\<close>

text \<open>
  Lines 73-77 of \<^verbatim>\<open>generate_sequential_token\<close>:
  \<^verbatim>\<open>
  next_id = 1
  while str(next_id) in token_map:
      next_id += 1
  \<close>
  The loop ends because the mapping has finitely many keys and \<open>str_nat\<close> is injective.
\<close>

function seq_scan :: "'v dict \<Rightarrow> nat \<Rightarrow> nat" where
  "seq_scan token_map next_id =
     (if dict_contains token_map (str_nat next_id) then seq_scan token_map (next_id + 1)
      else next_id)"
  by pat_completeness auto
termination
proof (relation "measure (\<lambda>(m, n). card {i. n \<le> i \<and> str_nat i \<in> set (dict_keys m)})")
  show "wf (measure (\<lambda>(m :: 'v dict, n). card {i. n \<le> i \<and> str_nat i \<in> set (dict_keys m)}))"
    by simp
next
  fix token_map :: "'v dict" and next_id :: nat
  assume c: "dict_contains token_map (str_nat next_id)"
  let ?A = "\<lambda>n. {i. n \<le> i \<and> str_nat i \<in> set (dict_keys token_map)}"
  have "finite (str_nat -` set (dict_keys token_map))"
    by (rule finite_vimageI) (auto simp: inj_on_def)
  then have fin: "finite (?A next_id)"
    by (rule rev_finite_subset) auto
  have "next_id \<in> ?A next_id" using c by (simp add: dict_contains_def)
  moreover have "next_id \<notin> ?A (next_id + 1)" by simp
  moreover have "?A (next_id + 1) \<subseteq> ?A next_id" by auto
  ultimately have "?A (next_id + 1) \<subset> ?A next_id" by blast
  with fin have "card (?A (next_id + 1)) < card (?A next_id)"
    by (rule psubset_card_mono)
  then show "((token_map, next_id + 1), (token_map, next_id))
      \<in> measure (\<lambda>(m, n). card {i. n \<le> i \<and> str_nat i \<in> set (dict_keys m)})"
    by simp
qed

declare seq_scan.simps [simp del]

definition generate_sequential_token :: "cell \<Rightarrow> cell dict \<Rightarrow> string" where
  "generate_sequential_token val token_map =
     (case find_token token_map val of
        Some token \<Rightarrow> token
      | None \<Rightarrow> str_nat (seq_scan token_map 1))"

text \<open>
  \<^verbatim>\<open>uuid.uuid4()\<close> is the only source of randomness. It is a parameter of the model: \<open>draws i\<close>
  is the string of the \<open>i\<close>-th UUID the process draws, and the generator returns the token
  together with the number of UUIDs drawn so far. Lines 54-57:
  \<^verbatim>\<open>
  token = str(uuid.uuid4())
  while token in token_map:
      token = str(uuid.uuid4())
  \<close>
  The loop runs forever when every later draw is a key of the mapping; the result \<open>None\<close>
  stands for that.
\<close>

partial_function (option) uuid_redraw ::
  "(nat \<Rightarrow> string) \<Rightarrow> 'v dict \<Rightarrow> string \<Rightarrow> nat \<Rightarrow> (string \<times> nat) option" where
  "uuid_redraw draws token_map token i =
     (if dict_contains token_map token then uuid_redraw draws token_map (draws i) (i + 1)
      else Some (token, i))"

declare uuid_redraw.simps [code]

definition generate_uuid_token ::
  "(nat \<Rightarrow> string) \<Rightarrow> cell \<Rightarrow> cell dict \<Rightarrow> nat \<Rightarrow> (string \<times> nat) option" where
  "generate_uuid_token draws val token_map i =
     (case find_token token_map val of
        Some token \<Rightarrow> Some (token, i)
      | None \<Rightarrow> uuid_redraw draws token_map (draws i) (i + 1))"

section \<open>Errors, log messages and the file system\<close>

datatype error =
    FileNotFoundError string
  | OSError string
  | InvalidTokenMethod string
  | FieldsNotInFieldnames
  | FieldnamesIsNone
  | KeyError string

text \<open>
  \<open>FileNotFoundError p\<close> is raised by \<^verbatim>\<open>open\<close> for the path \<open>p\<close>. \<open>OSError p\<close> stands for the
  other exceptions of opening and reading \<open>p\<close> (\<^verbatim>\<open>PermissionError\<close>, \<^verbatim>\<open>IsADirectoryError\<close>,
  \<^verbatim>\<open>UnicodeDecodeError\<close>, \<^verbatim>\<open>csv.Error\<close>). \<open>InvalidTokenMethod\<close> is the \<^verbatim>\<open>ValueError\<close> of line
  112. \<open>FieldsNotInFieldnames\<close> is the \<^verbatim>\<open>ValueError\<close> that \<^verbatim>\<open>DictWriter.writerow\<close> raises for a
  record with a key that is not a field name, \<open>FieldnamesIsNone\<close> the \<^verbatim>\<open>TypeError\<close> of
  \<^verbatim>\<open>writeheader\<close> when the input file has no header row.
\<close>

text \<open>The log lines, in the order of the source: lines 101 and 167, 134, 104, 138 and 189,
  141, 151, 169, 172, 192.\<close>

datatype log_msg =
    WarnMalformedRow "string list"
  | WarnColumnNotFound string
  | ErrReadingExistingTokenMap error
  | ErrInputNotFound string
  | ErrDuringTokenization error
  | ErrWritingTokenMap error
  | ErrTokenMapNotFound string
  | ErrReadingTokenMap error
  | ErrDuringDetokenization error

datatype io_event = PathExists string | OpenRead string | OpenWrite string

text \<open>
  A file holds the rows that \<^verbatim>\<open>csv.reader\<close> yields for it and that \<^verbatim>\<open>csv.writer\<close> wrote to it,
  each row a list of fields. The file system is \<open>files\<close> with three kinds of failure:
  \<open>open_fault w p = Some e\<close>: the path \<open>p\<close> exists and opening it for reading raises \<open>e\<close> (a
  directory, a file without read permission); \<open>read_fault w p = Some e\<close>: reading the file
  \<open>p\<close> raises \<open>e\<close> after the rows of \<open>files w p\<close> have been read (undecodable bytes, a
  \<^verbatim>\<open>csv.Error\<close>); \<open>write_fault w p = Some e\<close>: opening \<open>p\<close> for writing raises \<open>e\<close> (a missing
  directory, a directory, no write permission). A file that has been opened for writing
  takes every row written to it. A path that \<^verbatim>\<open>os.path.exists\<close> does not see is taken not to
  exist: opening it for reading raises \<^verbatim>\<open>FileNotFoundError\<close>. \<open>trace\<close> records the calls of
  \<^verbatim>\<open>os.path.exists\<close> and of \<^verbatim>\<open>open\<close>, failed ones included.
\<close>

type_synonym csv = "string list list"

record world =
  files :: "string \<rightharpoonup> csv"
  open_fault :: "string \<rightharpoonup> error"
  read_fault :: "string \<rightharpoonup> error"
  write_fault :: "string \<rightharpoonup> error"
  trace :: "io_event list"
  log :: "log_msg list"
  rng :: nat

text \<open>\<^verbatim>\<open>os.path.exists(p)\<close>\<close>

definition path_exists :: "world \<Rightarrow> string \<Rightarrow> bool" where
  "path_exists w p \<longleftrightarrow> files w p \<noteq> None \<or> open_fault w p \<noteq> None"

text \<open>\<^verbatim>\<open>open(p, "r")\<close>: the exception it raises, if any.\<close>

definition open_read :: "world \<Rightarrow> string \<Rightarrow> error option" where
  "open_read w p =
     (case open_fault w p of
        Some e \<Rightarrow> Some e
      | None \<Rightarrow> (case files w p of None \<Rightarrow> Some (FileNotFoundError p) | Some _ \<Rightarrow> None))"

text \<open>\<^verbatim>\<open>open(p, "w")\<close>: the exception it raises, or the file system with \<open>p\<close> empty.\<close>

definition open_write :: "world \<Rightarrow> string \<Rightarrow> error + world" where
  "open_write w p =
     (case write_fault w p of
        Some e \<Rightarrow> Inl e
      | None \<Rightarrow> Inr (w\<lparr>files := (files w)(p \<mapsto> []),
                        read_fault := (read_fault w)(p := None)\<rparr>))"

text \<open>A file system with the given files and no failure, before any call.\<close>

definition disk :: "(string \<rightharpoonup> csv) \<Rightarrow> world" where
  "disk fs = \<lparr>files = fs, open_fault = Map.empty, read_fault = Map.empty,
     write_fault = Map.empty, trace = [], log = [], rng = 0\<rparr>"

section \<open>Records as \<^verbatim>\<open>csv.DictReader\<close> and \<^verbatim>\<open>csv.DictWriter\<close> see them\<close>

text \<open>
  A record is the dict of a row: \<open>cells\<close> under the column names and, for a row longer
  than the header, the surplus fields \<open>rest\<close> that \<^verbatim>\<open>DictReader\<close> stores under the key
  \<^verbatim>\<open>None\<close> (\<open>rest = []\<close> when there is no such key).
\<close>

datatype row = Row (cells: "cell dict") (rest: "string list")

text \<open>\<^verbatim>\<open>dict(zip(fieldnames, row))\<close>\<close>

fun dict_of_zip :: "string list \<Rightarrow> string list \<Rightarrow> cell dict \<Rightarrow> cell dict" where
  "dict_of_zip (k # ks) (v # vs) d = dict_of_zip ks vs (dict_set d k (Some v))"
| "dict_of_zip _ _ d = d"

text \<open>\<^verbatim>\<open>for key in self.fieldnames[lr:]: d[key] = self.restval\<close>\<close>

fun fill_restval :: "string list \<Rightarrow> cell dict \<Rightarrow> cell dict" where
  "fill_restval [] d = d"
| "fill_restval (k # ks) d = fill_restval ks (dict_set d k None)"

definition dict_reader_row :: "string list \<Rightarrow> string list \<Rightarrow> row" where
  "dict_reader_row fieldnames r =
     (let d = dict_of_zip fieldnames r [];
          lf = length fieldnames;
          lr = length r
      in if lf < lr then Row d (drop lf r)
         else if lf > lr then Row (fill_restval (drop lr fieldnames) d) []
         else Row d [])"

text \<open>The records after the header row; \<^verbatim>\<open>DictReader\<close> skips empty rows.\<close>

definition dict_reader :: "string list \<Rightarrow> csv \<Rightarrow> row list" where
  "dict_reader fieldnames rs = map (dict_reader_row fieldnames) (filter (\<lambda>r. r \<noteq> []) rs)"

text \<open>\<^verbatim>\<open>csv.writer\<close> writes \<^verbatim>\<open>None\<close> as the empty string.\<close>

fun csv_field :: "cell \<Rightarrow> string" where
  "csv_field None = []"
| "csv_field (Some s) = s"

text \<open>
  \<^verbatim>\<open>DictWriter.writerow\<close>: a key that is not a field name raises; otherwise the row is
  \<^verbatim>\<open>rowdict.get(key, '')\<close> for each field name in order.
\<close>

definition writerow :: "string list \<Rightarrow> row \<Rightarrow> error + string list" where
  "writerow fieldnames r =
     (if rest r \<noteq> [] \<or> \<not> set (dict_keys (cells r)) \<subseteq> set fieldnames
      then Inl FieldsNotInFieldnames
      else Inr (map (\<lambda>k. case dict_get (cells r) k of
                           Some c \<Rightarrow> csv_field c
                         | None \<Rightarrow> []) fieldnames))"

section \<open>The mapping file\<close>

text \<open>
  Lines 97-101 and 163-167, the same loop in \<^verbatim>\<open>tokenize_data\<close> and \<^verbatim>\<open>detokenize_data\<close>:
  \<^verbatim>\<open>
  for row in reader:
      if len(row) == 2:
          token_map[row[0]] = row[1]
      else:
          logging.warning(...)
  \<close>
\<close>

fun load_token_map :: "csv \<Rightarrow> cell dict \<Rightarrow> log_msg list \<Rightarrow> cell dict \<times> log_msg list" where
  "load_token_map [] token_map lg = (token_map, lg)"
| "load_token_map (r # rs) token_map lg =
     (if length r = 2
      then load_token_map rs (dict_set token_map (r ! 0) (Some (r ! 1))) lg
      else load_token_map rs token_map (lg @ [WarnMalformedRow r]))"

text \<open>Lines 148-149: \<^verbatim>\<open>for token, value in token_map.items(): writer.writerow([token, value])\<close>\<close>

definition save_token_map :: "cell dict \<Rightarrow> csv" where
  "save_token_map token_map = map (\<lambda>(token, v). [token, csv_field v]) token_map"

section \<open>Tokenization\<close>

datatype generator = GenUuid | GenSequential

text \<open>Lines 107-112.\<close>

definition select_generator :: "string \<Rightarrow> error + generator" where
  "select_generator token_method =
     (if token_method = ''uuid'' then Inr GenUuid
      else if token_method = ''sequential'' then Inr GenSequential
      else Inl (InvalidTokenMethod token_method))"

definition token_generator ::
  "generator \<Rightarrow> (nat \<Rightarrow> string) \<Rightarrow> cell \<Rightarrow> cell dict \<Rightarrow> nat \<Rightarrow> (string \<times> nat) option" where
  "token_generator g draws val token_map i =
     (case g of
        GenUuid \<Rightarrow> generate_uuid_token draws val token_map i
      | GenSequential \<Rightarrow> Some (generate_sequential_token val token_map, i))"

record tok_state =
  token_map :: "cell dict"
  next_draw :: nat
  warnings :: "log_msg list"

text \<open>
  Lines 126-131 for one value: the reverse lookup, and the generator with the insertion
  only when the lookup finds nothing.
\<close>

definition tokenize_value ::
  "generator \<Rightarrow> (nat \<Rightarrow> string) \<Rightarrow> cell \<Rightarrow> tok_state \<Rightarrow> (string \<times> tok_state) option" where
  "tokenize_value g draws original_value st =
     (case find_token (token_map st) original_value of
        Some token \<Rightarrow> Some (token, st)
      | None \<Rightarrow>
          (case token_generator g draws original_value (token_map st) (next_draw st) of
             None \<Rightarrow> None
           | Some (token, i) \<Rightarrow>
               Some (token, st\<lparr>token_map := dict_set (token_map st) token original_value,
                                next_draw := i\<rparr>)))"

text \<open>Lines 124-134: \<^verbatim>\<open>for column in tokenize_columns\<close> on one record.\<close>

fun tokenize_row ::
  "generator \<Rightarrow> (nat \<Rightarrow> string) \<Rightarrow> string list \<Rightarrow> cell dict \<Rightarrow> tok_state
     \<Rightarrow> (cell dict \<times> tok_state) option" where
  "tokenize_row g draws [] r st = Some (r, st)"
| "tokenize_row g draws (column # columns) r st =
     (case dict_get r column of
        Some original_value \<Rightarrow>
          (case tokenize_value g draws original_value st of
             None \<Rightarrow> None
           | Some (token, st') \<Rightarrow>
               tokenize_row g draws columns (dict_set r column (Some token)) st')
      | None \<Rightarrow>
          tokenize_row g draws columns r
            (st\<lparr>warnings := warnings st @ [WarnColumnNotFound column]\<rparr>))"

text \<open>
  Lines 123-136: \<^verbatim>\<open>for row in reader\<close>. \<open>out\<close> is what has been written to the output file
  so far; an exception of \<^verbatim>\<open>writerow\<close> ends the loop with the rows written before it.
\<close>

fun tokenize_rows ::
  "generator \<Rightarrow> (nat \<Rightarrow> string) \<Rightarrow> string list \<Rightarrow> string list \<Rightarrow> row list \<Rightarrow> tok_state
     \<Rightarrow> csv \<Rightarrow> ((error + unit) \<times> csv \<times> tok_state) option" where
  "tokenize_rows g draws columns fieldnames [] st out = Some (Inr (), out, st)"
| "tokenize_rows g draws columns fieldnames (r # rs) st out =
     (case tokenize_row g draws columns (cells r) st of
        None \<Rightarrow> None
      | Some (d, st') \<Rightarrow>
          (case writerow fieldnames (Row d (rest r)) of
             Inl e \<Rightarrow> Some (Inl e, out, st')
           | Inr line \<Rightarrow> tokenize_rows g draws columns fieldnames rs st' (out @ [line])))"

text \<open>
  Lines 92-105: the mapping file is looked for and, when the path exists, read. An
  exception of \<^verbatim>\<open>open\<close> or of reading is logged and raised again (lines 103-105); the
  warnings of the malformed rows read before it have been logged.
\<close>

definition read_existing_token_map :: "string \<Rightarrow> world \<Rightarrow> (error + cell dict) \<times> world" where
  "read_existing_token_map token_map_file w =
     (let w1 = w\<lparr>trace := trace w @ [PathExists token_map_file]\<rparr>
      in if \<not> path_exists w1 token_map_file then (Inr [], w1)
         else
           (let w2 = w1\<lparr>trace := trace w1 @ [OpenRead token_map_file]\<rparr>
            in case open_read w2 token_map_file of
                 Some e \<Rightarrow> (Inl e, w2\<lparr>log := log w2 @ [ErrReadingExistingTokenMap e]\<rparr>)
               | None \<Rightarrow>
                   (let (tm, lg) = load_token_map (the (files w2 token_map_file)) [] [];
                        w3 = w2\<lparr>log := log w2 @ lg\<rparr>
                    in case read_fault w3 token_map_file of
                         Some e \<Rightarrow> (Inl e, w3\<lparr>log := log w3 @ [ErrReadingExistingTokenMap e]\<rparr>)
                       | None \<Rightarrow> (Inr tm, w3))))"

text \<open>
  Lines 137-142, the two handlers of the \<^verbatim>\<open>try\<close> of lines 115-136: a \<^verbatim>\<open>FileNotFoundError\<close>,
  whichever \<^verbatim>\<open>open\<close> raised it, is logged as the input file not found.
\<close>

definition tokenize_error_msg :: "string \<Rightarrow> error \<Rightarrow> log_msg" where
  "tokenize_error_msg input_file e =
     (case e of
        FileNotFoundError _ \<Rightarrow> ErrInputNotFound input_file
      | _ \<Rightarrow> ErrDuringTokenization e)"

text \<open>
  Lines 115-142: the input file is opened for reading, then the output file for
  writing, which empties it; the header and the records are read after that. An
  exception ends the loop with the rows written before it. The result is \<open>None\<close> when the
  redraw loop of the UUID generator does not end.
\<close>

definition tokenize_records ::
  "generator \<Rightarrow> (nat \<Rightarrow> string) \<Rightarrow> string \<Rightarrow> string \<Rightarrow> string list \<Rightarrow> cell dict \<Rightarrow> world
     \<Rightarrow> ((error + cell dict) \<times> world) option" where
  "tokenize_records g draws input_file output_file tokenize_columns tm w =
     (let w1 = w\<lparr>trace := trace w @ [OpenRead input_file]\<rparr>;
          failed = (\<lambda>e w'. Some (Inl e, w'\<lparr>log := log w' @ [tokenize_error_msg input_file e]\<rparr>))
      in case open_read w1 input_file of
           Some e \<Rightarrow> failed e w1
         | None \<Rightarrow>
             (let w2 = w1\<lparr>trace := trace w1 @ [OpenWrite output_file]\<rparr>
              in case open_write w2 output_file of
                   Inl e \<Rightarrow> failed e w2
                 | Inr w3 \<Rightarrow>
                     (case the (files w3 input_file) of
                        [] \<Rightarrow>
                          failed (case read_fault w3 input_file of
                                    Some e \<Rightarrow> e | None \<Rightarrow> FieldnamesIsNone) w3
                      | fieldnames # rs \<Rightarrow>
                          (case tokenize_rows g draws tokenize_columns fieldnames
                                  (dict_reader fieldnames rs)
                                  \<lparr>token_map = tm, next_draw = rng w3, warnings = []\<rparr>
                                  [fieldnames] of
                             None \<Rightarrow> None
                           | Some (res, out, st) \<Rightarrow>
                               (let w4 = w3\<lparr>files := (files w3)(output_file \<mapsto> out),
                                             log := log w3 @ warnings st,
                                             rng := next_draw st\<rparr>
                                in case res of
                                     Inl e \<Rightarrow> failed e w4
                                   | Inr _ \<Rightarrow>
                                       (case read_fault w4 input_file of
                                          Some e \<Rightarrow> failed e w4
                                        | None \<Rightarrow> Some (Inr (token_map st), w4)))))))"

text \<open>Lines 144-152: the mapping file is opened for writing and the mapping written.\<close>

definition write_token_map :: "string \<Rightarrow> cell dict \<Rightarrow> world \<Rightarrow> (error + unit) \<times> world" where
  "write_token_map token_map_file tm w =
     (let w1 = w\<lparr>trace := trace w @ [OpenWrite token_map_file]\<rparr>
      in case open_write w1 token_map_file of
           Inl e \<Rightarrow> (Inl e, w1\<lparr>log := log w1 @ [ErrWritingTokenMap e]\<rparr>)
         | Inr w2 \<Rightarrow>
             (Inr (), w2\<lparr>files := (files w2)(token_map_file \<mapsto> save_token_map tm)\<rparr>))"

text \<open>
  \<^verbatim>\<open>tokenize_data\<close>, lines 90-152: the mapping file is read first (lines 92-105), then the
  strategy is chosen (lines 107-112), then the records are tokenized (lines 115-142), and
  the mapping file is written last (lines 144-152).
\<close>

definition tokenize_data ::
  "(nat \<Rightarrow> string) \<Rightarrow> string \<Rightarrow> string \<Rightarrow> string list \<Rightarrow> string \<Rightarrow> string \<Rightarrow> world
     \<Rightarrow> ((error + unit) \<times> world) option" where
  "tokenize_data draws input_file output_file tokenize_columns token_method token_map_file w =
     (case read_existing_token_map token_map_file w of
        (Inl e, w1) \<Rightarrow> Some (Inl e, w1)
      | (Inr tm, w1) \<Rightarrow>
          (case select_generator token_method of
             Inl e \<Rightarrow> Some (Inl e, w1)
           | Inr g \<Rightarrow>
               (case tokenize_records g draws input_file output_file tokenize_columns tm w1 of
                  None \<Rightarrow> None
                | Some (Inl e, w2) \<Rightarrow> Some (Inl e, w2)
                | Some (Inr tm', w2) \<Rightarrow> Some (write_token_map token_map_file tm' w2))))"

section \<open>Detokenization\<close>

text \<open>
  Lines 184-186 on one record:
  \<^verbatim>\<open>
  for column in reader.fieldnames:
      if row[column] in token_map:
          row[column] = token_map[row[column]]
  \<close>
  \<^verbatim>\<open>None in token_map\<close> is false, the keys being strings.
\<close>

fun detokenize_row :: "cell dict \<Rightarrow> string list \<Rightarrow> cell dict \<Rightarrow> error + cell dict" where
  "detokenize_row tm [] r = Inr r"
| "detokenize_row tm (column # columns) r =
     (case dict_get r column of
        None \<Rightarrow> Inl (KeyError column)
      | Some None \<Rightarrow> detokenize_row tm columns r
      | Some (Some s) \<Rightarrow>
          (case dict_get tm s of
             None \<Rightarrow> detokenize_row tm columns r
           | Some original_value \<Rightarrow>
               detokenize_row tm columns (dict_set r column original_value)))"

text \<open>Lines 183-187: \<^verbatim>\<open>for row in reader\<close>.\<close>

fun detokenize_rows ::
  "cell dict \<Rightarrow> string list \<Rightarrow> row list \<Rightarrow> csv \<Rightarrow> (error + unit) \<times> csv" where
  "detokenize_rows tm fieldnames [] out = (Inr (), out)"
| "detokenize_rows tm fieldnames (r # rs) out =
     (case detokenize_row tm fieldnames (cells r) of
        Inl e \<Rightarrow> (Inl e, out)
      | Inr d \<Rightarrow>
          (case writerow fieldnames (Row d (rest r)) of
             Inl e \<Rightarrow> (Inl e, out)
           | Inr line \<Rightarrow> detokenize_rows tm fieldnames rs (out @ [line])))"

text \<open>
  Lines 159-173: the mapping file is opened and read; a \<^verbatim>\<open>FileNotFoundError\<close> and any other
  exception have a handler each.
\<close>

definition read_token_map :: "string \<Rightarrow> world \<Rightarrow> (error + cell dict) \<times> world" where
  "read_token_map token_map_file w =
     (let w1 = w\<lparr>trace := trace w @ [OpenRead token_map_file]\<rparr>;
          failed = (\<lambda>e w'. (Inl e, w'\<lparr>log := log w' @
                      [case e of
                         FileNotFoundError _ \<Rightarrow> ErrTokenMapNotFound token_map_file
                       | _ \<Rightarrow> ErrReadingTokenMap e]\<rparr>))
      in case open_read w1 token_map_file of
           Some e \<Rightarrow> failed e w1
         | None \<Rightarrow>
             (let (tm, lg) = load_token_map (the (files w1 token_map_file)) [] [];
                  w2 = w1\<lparr>log := log w1 @ lg\<rparr>
              in case read_fault w2 token_map_file of
                   Some e \<Rightarrow> failed e w2
                 | None \<Rightarrow> (Inr tm, w2)))"

text \<open>Lines 188-193, the two handlers of the \<^verbatim>\<open>try\<close> of lines 175-187.\<close>

definition detokenize_error_msg :: "string \<Rightarrow> error \<Rightarrow> log_msg" where
  "detokenize_error_msg input_file e =
     (case e of
        FileNotFoundError _ \<Rightarrow> ErrInputNotFound input_file
      | _ \<Rightarrow> ErrDuringDetokenization e)"

text \<open>Lines 175-193.\<close>

definition detokenize_records ::
  "string \<Rightarrow> string \<Rightarrow> cell dict \<Rightarrow> world \<Rightarrow> (error + unit) \<times> world" where
  "detokenize_records input_file output_file tm w =
     (let w1 = w\<lparr>trace := trace w @ [OpenRead input_file]\<rparr>;
          failed = (\<lambda>e w'. (Inl e, w'\<lparr>log := log w' @ [detokenize_error_msg input_file e]\<rparr>))
      in case open_read w1 input_file of
           Some e \<Rightarrow> failed e w1
         | None \<Rightarrow>
             (let w2 = w1\<lparr>trace := trace w1 @ [OpenWrite output_file]\<rparr>
              in case open_write w2 output_file of
                   Inl e \<Rightarrow> failed e w2
                 | Inr w3 \<Rightarrow>
                     (case the (files w3 input_file) of
                        [] \<Rightarrow>
                          failed (case read_fault w3 input_file of
                                    Some e \<Rightarrow> e | None \<Rightarrow> FieldnamesIsNone) w3
                      | fieldnames # rs \<Rightarrow>
                          (case detokenize_rows tm fieldnames (dict_reader fieldnames rs)
                                  [fieldnames] of
                             (res, out) \<Rightarrow>
                               (let w4 = w3\<lparr>files := (files w3)(output_file \<mapsto> out)\<rparr>
                                in case res of
                                     Inl e \<Rightarrow> failed e w4
                                   | Inr _ \<Rightarrow>
                                       (case read_fault w4 input_file of
                                          Some e \<Rightarrow> failed e w4
                                        | None \<Rightarrow> (Inr (), w4)))))))"

text \<open>\<^verbatim>\<open>detokenize_data\<close>, lines 155-193.\<close>

definition detokenize_data :: "string \<Rightarrow> string \<Rightarrow> string \<Rightarrow> world \<Rightarrow> (error + unit) \<times> world" where
  "detokenize_data input_file output_file token_map_file w =
     (case read_token_map token_map_file w of
        (Inl e, w1) \<Rightarrow> (Inl e, w1)
      | (Inr tm, w1) \<Rightarrow> detokenize_records input_file output_file tm w1)"

section \<open>Notions used in the statements\<close>

definition two_fields :: "string list \<Rightarrow> bool" where
  "two_fields r = (length r = 2)"

text \<open>
  What tokenization makes of the cell of column \<open>k\<close> of a record \<open>r\<close>, read off a mapping:
  a configured column holds the first token of its value, any other column its value.
\<close>

definition tokenized_cell :: "cell dict \<Rightarrow> string list \<Rightarrow> cell dict \<Rightarrow> string \<Rightarrow> cell option" where
  "tokenized_cell tm cols r k =
     (case dict_get r k of
        None \<Rightarrow> None
      | Some v \<Rightarrow> if k \<in> set cols then map_option Some (find_token tm v) else Some v)"

definition tokenized_line :: "cell dict \<Rightarrow> string list \<Rightarrow> string list \<Rightarrow> cell dict \<Rightarrow> string list" where
  "tokenized_line tm cols fieldnames r =
     map (\<lambda>k. case tokenized_cell tm cols r k of Some c \<Rightarrow> csv_field c | None \<Rightarrow> [])
       fieldnames"

text \<open>The records that \<^verbatim>\<open>DictWriter.writerow\<close> accepts.\<close>

definition writable :: "string list \<Rightarrow> row \<Rightarrow> bool" where
  "writable fieldnames r \<longleftrightarrow> rest r = [] \<and> set (dict_keys (cells r)) \<subseteq> set fieldnames"

text \<open>
  \<open>extends_fresh m m'\<close>: \<open>m'\<close> is \<open>m\<close> followed by new entries whose tokens are new keys,
  pairwise different, and whose values are new values, pairwise different.
\<close>

definition extends_fresh :: "cell dict \<Rightarrow> cell dict \<Rightarrow> bool" where
  "extends_fresh m m' \<longleftrightarrow>
     (\<exists>new. m' = m @ new
        \<and> distinct (dict_keys new) \<and> set (dict_keys new) \<inter> set (dict_keys m) = {}
        \<and> distinct (map snd new) \<and> set (map snd new) \<inter> set (map snd m) = {})"

text \<open>The keys of a mapping filled by the sequential strategy alone: \<^verbatim>\<open>"1"\<close>, \<^verbatim>\<open>"2"\<close>, ... in order.\<close>

definition counted :: "cell dict \<Rightarrow> bool" where
  "counted m \<longleftrightarrow> dict_keys m = map str_nat [1..<Suc (length m)]"

text \<open>
  One lookup of a cell against the token keys: lines 185-186 for one column,
  \<^verbatim>\<open>if row[column] in token_map: row[column] = token_map[row[column]]\<close>.
\<close>

definition lookup_once :: "cell dict \<Rightarrow> cell \<Rightarrow> cell" where
  "lookup_once tm c =
     (case c of
        None \<Rightarrow> None
      | Some s \<Rightarrow> (case dict_get tm s of None \<Rightarrow> Some s | Some original_value \<Rightarrow> original_value))"

text \<open>
  What lines 92-105 of \<^verbatim>\<open>tokenize_data\<close> do, read off the file system: the mapping they load
  when nothing is raised, the exception they raise, the lines they log and their calls.
\<close>

definition loaded_map :: "world \<Rightarrow> string \<Rightarrow> cell dict" where
  "loaded_map w token_map_file =
     (case files w token_map_file of
        None \<Rightarrow> []
      | Some rows \<Rightarrow> fst (load_token_map rows [] []))"

definition load_error :: "world \<Rightarrow> string \<Rightarrow> error option" where
  "load_error w token_map_file =
     (case open_fault w token_map_file of
        Some e \<Rightarrow> Some e
      | None \<Rightarrow>
          (case files w token_map_file of
             None \<Rightarrow> None
           | Some rows \<Rightarrow> read_fault w token_map_file))"

definition load_log :: "world \<Rightarrow> string \<Rightarrow> log_msg list" where
  "load_log w token_map_file =
     (case open_fault w token_map_file of
        Some e \<Rightarrow> [ErrReadingExistingTokenMap e]
      | None \<Rightarrow>
          (case files w token_map_file of
             None \<Rightarrow> []
           | Some rows \<Rightarrow>
               snd (load_token_map rows [] [])
                 @ (case read_fault w token_map_file of
                      Some e \<Rightarrow> [ErrReadingExistingTokenMap e]
                    | None \<Rightarrow> [])))"

definition load_trace :: "world \<Rightarrow> string \<Rightarrow> io_event list" where
  "load_trace w token_map_file =
     (if path_exists w token_map_file
      then [PathExists token_map_file, OpenRead token_map_file]
      else [PathExists token_map_file])"

text \<open>A mapping as it is after a round trip through the mapping file: \<^verbatim>\<open>None\<close> comes back as
  the empty string.\<close>

definition reloaded :: "cell dict \<Rightarrow> cell dict" where
  "reloaded m = map (\<lambda>(token, v). (token, Some (csv_field v))) m"

text \<open>The row that \<^verbatim>\<open>DictWriter.writerow\<close> writes for a record.\<close>

definition written_line :: "string list \<Rightarrow> cell dict \<Rightarrow> string list" where
  "written_line fieldnames r =
     map (\<lambda>k. case dict_get r k of Some c \<Rightarrow> csv_field c | None \<Rightarrow> []) fieldnames"

text \<open>Lines 184-187 on one record, read off the mapping.\<close>

definition detokenized_line :: "cell dict \<Rightarrow> string list \<Rightarrow> cell dict \<Rightarrow> string list" where
  "detokenized_line tm fieldnames r =
     map (\<lambda>k. case map_option (lookup_once tm ^^ count_list fieldnames k) (dict_get r k) of
                Some c \<Rightarrow> csv_field c | None \<Rightarrow> []) fieldnames"

section \<open>Facts about dicts and the generators\<close>

lemma dict_get_set: "dict_get (dict_set m k v) k' = (if k' = k then Some v else dict_get m k')"
  by (induction m) (auto simp: dict_get_def)

lemma dict_contains_get: "dict_contains m k \<longleftrightarrow> dict_get m k \<noteq> None"
  by (simp add: dict_contains_def dict_keys_def dict_get_def map_of_eq_None_iff)

lemma dict_set_new: "\<not> dict_contains m k \<Longrightarrow> dict_set m k v = m @ [(k, v)]"
  by (induction m) (auto simp: dict_contains_def dict_keys_def)

lemma dict_keys_set:
  "dict_keys (dict_set m k v) = (if dict_contains m k then dict_keys m else dict_keys m @ [k])"
  by (induction m) (force simp: dict_contains_def dict_keys_def)+

lemma distinct_dict_set: "distinct (dict_keys m) \<Longrightarrow> distinct (dict_keys (dict_set m k v))"
  by (simp add: dict_keys_set dict_contains_def)

lemma find_token_append:
  "find_token (m @ n) x = (case find_token m x of Some t \<Rightarrow> Some t | None \<Rightarrow> find_token n x)"
  by (induction m) auto

lemma find_token_None: "find_token m x = None \<longleftrightarrow> x \<notin> snd ` set m"
  by (induction m) (force split: if_splits)+

lemma find_token_Some_mem: "find_token m x = Some t \<Longrightarrow> (t, x) \<in> set m"
  by (induction m) (auto split: if_splits)

lemma find_token_Some_get:
  "distinct (dict_keys m) \<Longrightarrow> find_token m x = Some t \<Longrightarrow> dict_get m t = Some x"
  by (simp add: dict_get_def dict_keys_def find_token_Some_mem)

lemma seq_scan_ge: "n \<le> seq_scan m n"
  by (induction m n rule: seq_scan.induct) (subst seq_scan.simps, auto)

lemma seq_scan_free: "\<not> dict_contains m (str_nat (seq_scan m n))"
  by (induction m n rule: seq_scan.induct) (subst seq_scan.simps, auto)

lemma seq_scan_below: "n \<le> k \<Longrightarrow> k < seq_scan m n \<Longrightarrow> dict_contains m (str_nat k)"
proof (induction m n rule: seq_scan.induct)
  case (1 m n)
  show ?case
  proof (cases "dict_contains m (str_nat n)")
    case True
    then have s: "seq_scan m n = seq_scan m (n + 1)" by (subst seq_scan.simps) simp
    show ?thesis
    proof (cases "k = n")
      case True
      with \<open>dict_contains m (str_nat n)\<close> show ?thesis by simp
    next
      case False
      with "1.prems" s have "n + 1 \<le> k" "k < seq_scan m (n + 1)" by simp_all
      with "1.IH" [OF True] show ?thesis by simp
    qed
  next
    case False
    then have "seq_scan m n = n" by (subst seq_scan.simps) simp
    with "1.prems" show ?thesis by simp
  qed
qed

lemma seq_scan_Least:
  "seq_scan m 1 = (LEAST n. 0 < n \<and> \<not> dict_contains m (str_nat n))"
proof (rule Least_equality [symmetric])
  show "0 < seq_scan m 1 \<and> \<not> dict_contains m (str_nat (seq_scan m 1))"
    using seq_scan_ge [of 1 m] by (simp add: seq_scan_free)
next
  fix y assume "0 < y \<and> \<not> dict_contains m (str_nat y)"
  then show "seq_scan m 1 \<le> y"
    using seq_scan_below [of 1 y m] by (cases "y < seq_scan m 1") auto
qed

lemma uuid_redraw_fresh:
  assumes "uuid_redraw draws m tok i = Some y"
  shows "\<not> dict_contains m (fst y) \<and> i \<le> snd y"
proof (rule uuid_redraw.raw_induct
    [where P = "\<lambda>draws m tok i y. \<not> dict_contains m (fst y) \<and> i \<le> snd y", OF _ assms])
  fix redraw :: "(nat \<Rightarrow> string) \<Rightarrow> 'a dict \<Rightarrow> string \<Rightarrow> nat \<Rightarrow> (string \<times> nat) option"
    and draws m tok i y
  assume ih: "\<And>draws m tok i y. redraw draws m tok i = Some y
      \<Longrightarrow> \<not> dict_contains m (fst y) \<and> i \<le> snd y"
    and eq: "(if dict_contains m tok then redraw draws m (draws i) (i + 1)
      else Some (tok, i)) = Some y"
  show "\<not> dict_contains m (fst y) \<and> i \<le> snd y"
  proof (cases "dict_contains m tok")
    case True
    with eq have "redraw draws m (draws i) (i + 1) = Some y" by simp
    from ih [OF this] show ?thesis by simp
  next
    case False
    with eq show ?thesis by auto
  qed
qed

lemma uuid_redraw_returns:
  "i \<le> k \<Longrightarrow> \<not> dict_contains m (draws k) \<Longrightarrow> \<exists>y. uuid_redraw draws m tok i = Some y"
proof (induction "k - i" arbitrary: i tok)
  case 0
  then have "k = i" by simp
  with "0.prems" show ?case
    by (subst uuid_redraw.simps, subst uuid_redraw.simps) simp
next
  case (Suc n)
  then have "n = k - (i + 1)" "i + 1 \<le> k" by simp_all
  from Suc.hyps(1) [OF this Suc.prems(2)] show ?case
    by (subst uuid_redraw.simps) simp
qed

lemma fresh_draw_exists:
  assumes "inj (draws :: nat \<Rightarrow> string)"
  shows "\<exists>k\<ge>i. \<not> dict_contains m (draws k)"
proof (rule ccontr)
  assume "\<not> (\<exists>k\<ge>i. \<not> dict_contains m (draws k))"
  then have "{i..} \<subseteq> draws -` set (dict_keys m)"
    by (auto simp: dict_contains_def)
  moreover have "finite (draws -` set (dict_keys m))"
    using assms by (intro finite_vimageI) simp_all
  ultimately have "finite {i..}" by (rule finite_subset)
  then show False by (simp add: infinite_Ici)
qed

lemma uuid_redraw_inj_returns:
  "inj draws \<Longrightarrow> \<exists>y. uuid_redraw draws m tok i = Some y"
  using fresh_draw_exists [of draws i m] uuid_redraw_returns by blast

section \<open>Loading the mapping file\<close>

lemma load_token_map_fold:
  "load_token_map rows tm lg =
     (fold (\<lambda>r d. dict_set d (r ! 0) (Some (r ! 1))) (filter two_fields rows) tm,
      lg @ map WarnMalformedRow (filter (\<lambda>r. \<not> two_fields r) rows))"
  by (induction rows arbitrary: tm lg) (simp_all add: two_fields_def)

lemma dict_get_fold_set:
  "dict_get (fold (\<lambda>r d. dict_set d (f r) (g r)) rs d0) k =
     (case map_of (rev (map (\<lambda>r. (f r, g r)) rs)) k of
        Some v \<Rightarrow> Some v
      | None \<Rightarrow> dict_get d0 k)"
proof (induction rs arbitrary: d0)
  case Nil
  show ?case by simp
next
  case (Cons r rs)
  show ?case
    by (simp add: Cons.IH dict_get_set map_add_def split: option.splits)
qed

lemma dict_keys_fold_set:
  "set (dict_keys (fold (\<lambda>r d. dict_set d (f r) (g r)) rs d0)) = set (dict_keys d0) \<union> f ` set rs"
  by (induction rs arbitrary: d0) (auto simp: dict_keys_set dict_contains_def)

text \<open>
  C7. Loading the mapping file: the rows with exactly two fields, and only they, are
  assigned into the mapping in file order (\<^verbatim>\<open>token_map[row[0]] = row[1]\<close>, so the last row
  of a token is the one that stays); every other row is logged as a warning and changes
  nothing: the mapping is the one loaded from the file without the malformed rows, so the
  well-formed rows before and after a malformed one load as they would without it. The
  loader has no error result. \<^verbatim>\<open>tokenize_data\<close> and \<^verbatim>\<open>detokenize_data\<close> both load with it.
\<close>

theorem load_token_map_skips_malformed:
  "fst (load_token_map rows [] []) =
     fst (load_token_map (filter (\<lambda>r. length r = 2) rows) [] [])
   \<and> snd (load_token_map rows [] []) =
       map WarnMalformedRow (filter (\<lambda>r. length r \<noteq> 2) rows)
   \<and> snd (load_token_map (filter (\<lambda>r. length r = 2) rows) [] []) = []
   \<and> set (dict_keys (fst (load_token_map rows [] []))) =
       set (map (\<lambda>r. r ! 0) (filter (\<lambda>r. length r = 2) rows))
   \<and> dict_get (fst (load_token_map rows [] [])) =
       map_of (rev (map (\<lambda>r. (r ! 0, Some (r ! 1))) (filter (\<lambda>r. length r = 2) rows)))
   \<and> (\<forall>before r after. rows = before @ r # after \<and> length r = 2
         \<and> r ! 0 \<notin> set (map (\<lambda>r. r ! 0) (filter (\<lambda>r. length r = 2) after))
       \<longrightarrow> dict_get (fst (load_token_map rows [] [])) (r ! 0) = Some (Some (r ! 1)))"
proof (intro conjI allI impI)
  have tf: "two_fields = (\<lambda>r. length r = 2)"
    by (simp add: two_fields_def fun_eq_iff)
  show "fst (load_token_map rows [] []) =
      fst (load_token_map (filter (\<lambda>r. length r = 2) rows) [] [])"
    by (simp add: load_token_map_fold tf)
  show "snd (load_token_map rows [] []) =
      map WarnMalformedRow (filter (\<lambda>r. length r \<noteq> 2) rows)"
    by (simp add: load_token_map_fold tf)
  show "snd (load_token_map (filter (\<lambda>r. length r = 2) rows) [] []) = []"
    by (simp add: load_token_map_fold tf)
  show "set (dict_keys (fst (load_token_map rows [] []))) =
      set (map (\<lambda>r. r ! 0) (filter (\<lambda>r. length r = 2) rows))"
  proof -
    have "set (dict_keys (fst (load_token_map rows [] []))) =
        set (dict_keys ([] :: cell dict)) \<union> (\<lambda>r. r ! 0) ` set (filter two_fields rows)"
      unfolding load_token_map_fold fst_conv by (rule dict_keys_fold_set)
    also have "\<dots> = set (map (\<lambda>r. r ! 0) (filter (\<lambda>r. length r = 2) rows))"
      by (simp add: dict_keys_def tf)
    finally show ?thesis .
  qed
  show g: "dict_get (fst (load_token_map rows [] [])) =
      map_of (rev (map (\<lambda>r. (r ! 0, Some (r ! 1))) (filter (\<lambda>r. length r = 2) rows)))"
  proof (rule ext)
    fix k
    have "dict_get (fst (load_token_map rows [] [])) k =
        (case map_of (rev (map (\<lambda>r. (r ! 0, Some (r ! 1))) (filter two_fields rows))) k of
           Some v \<Rightarrow> Some v
         | None \<Rightarrow> dict_get ([] :: cell dict) k)"
      unfolding load_token_map_fold fst_conv by (rule dict_get_fold_set)
    then show "dict_get (fst (load_token_map rows [] [])) k =
        map_of (rev (map (\<lambda>r. (r ! 0, Some (r ! 1))) (filter (\<lambda>r. length r = 2) rows))) k"
      by (simp add: tf dict_get_def split: option.splits)
  qed
  fix before r after
  assume a: "rows = before @ r # after \<and> length r = 2
      \<and> r ! 0 \<notin> set (map (\<lambda>r. r ! 0) (filter (\<lambda>r. length r = 2) after))"
  let ?p = "\<lambda>r :: string list. (r ! 0, Some (r ! 1))"
  let ?two = "\<lambda>r :: string list. length r = 2"
  from a have "map_of (rev (map ?p (filter ?two after))) (r ! 0) = None"
    by (force simp: map_of_eq_None_iff image_iff)
  with a have "map_of (rev (map ?p (filter ?two rows))) (r ! 0) = Some (Some (r ! 1))"
    by (simp add: map_add_def)
  then show "dict_get (fst (load_token_map rows [] [])) (r ! 0) = Some (Some (r ! 1))"
    by (simp only: g)
qed

theorem load_token_map_skips_malformed_witness:
  "[[''t1'', ''a''], [''bad'', ''row'', ''x''], [], [''t2'', ''b'']]
     = [] @ [''t1'', ''a''] # [[''bad'', ''row'', ''x''], [], [''t2'', ''b'']]
   \<and> length [''t1'', ''a''] = 2
   \<and> [''t1'', ''a''] ! 0 \<notin> set (map (\<lambda>r. r ! 0)
         (filter (\<lambda>r. length r = 2) [[''bad'', ''row'', ''x''], [], [''t2'', ''b'']]))
   \<and> dict_get (fst (load_token_map
         [[''t1'', ''a''], [''bad'', ''row'', ''x''], [], [''t2'', ''b'']] [] [])) ''t1''
     = Some (Some ''a'')"
proof -
  have h: "[[''t1'', ''a''], [''bad'', ''row'', ''x''], [], [''t2'', ''b'']]
     = [] @ [''t1'', ''a''] # [[''bad'', ''row'', ''x''], [], [''t2'', ''b'']]
   \<and> length [''t1'', ''a''] = 2
   \<and> [''t1'', ''a''] ! 0 \<notin> set (map (\<lambda>r. r ! 0)
         (filter (\<lambda>r. length r = 2) [[''bad'', ''row'', ''x''], [], [''t2'', ''b'']]))"
    by simp
  from load_token_map_skips_malformed
    [of "[[''t1'', ''a''], [''bad'', ''row'', ''x''], [], [''t2'', ''b'']]"]
  have "\<forall>before r after.
      [[''t1'', ''a''], [''bad'', ''row'', ''x''], [], [''t2'', ''b'']] = before @ r # after
        \<and> length r = 2
        \<and> r ! 0 \<notin> set (map (\<lambda>r. r ! 0) (filter (\<lambda>r. length r = 2) after))
      \<longrightarrow> dict_get (fst (load_token_map
            [[''t1'', ''a''], [''bad'', ''row'', ''x''], [], [''t2'', ''b'']] [] [])) (r ! 0)
          = Some (Some (r ! 1))"
    by (elim conjE)
  from this [rule_format, OF h] h show ?thesis by simp
qed

section \<open>One value, one record\<close>

lemma token_generator_fresh:
  assumes "find_token m v = None" and "token_generator g draws v m i = Some (t, j)"
  shows "\<not> dict_contains m t \<and> i \<le> j"
proof (cases g)
  case GenUuid
  with assms have "uuid_redraw draws m (draws i) (i + 1) = Some (t, j)"
    by (simp add: token_generator_def generate_uuid_token_def)
  from uuid_redraw_fresh [OF this] show ?thesis by simp
next
  case GenSequential
  with assms have "t = str_nat (seq_scan m 1)" and "j = i"
    by (simp_all add: token_generator_def generate_sequential_token_def)
  then show ?thesis by (simp add: seq_scan_free)
qed

lemma tokenize_value_cases:
  assumes "tokenize_value g draws v st = Some (t, st')"
  shows "(find_token (token_map st) v = Some t \<and> st' = st)
     \<or> (find_token (token_map st) v = None \<and> \<not> dict_contains (token_map st) t
        \<and> (\<exists>i\<ge>next_draw st. token_generator g draws v (token_map st) (next_draw st) = Some (t, i)
             \<and> st' = st\<lparr>token_map := token_map st @ [(t, v)], next_draw := i\<rparr>))"
proof (cases "find_token (token_map st) v")
  case (Some t0)
  with assms show ?thesis by (simp add: tokenize_value_def)
next
  case None
  with assms obtain i where
    gen: "token_generator g draws v (token_map st) (next_draw st) = Some (t, i)"
    and st': "st' = st\<lparr>token_map := dict_set (token_map st) t v, next_draw := i\<rparr>"
    by (auto simp: tokenize_value_def split: option.splits)
  from token_generator_fresh [OF None gen]
  have fresh: "\<not> dict_contains (token_map st) t" and le: "next_draw st \<le> i" by simp_all
  with None gen st' show ?thesis by (auto simp: dict_set_new)
qed

lemma tokenize_value_token:
  "tokenize_value g draws v st = Some (t, st') \<Longrightarrow> find_token (token_map st') v = Some t"
  by (drule tokenize_value_cases) (auto simp: find_token_append)

lemma tokenize_value_grows:
  "tokenize_value g draws v st = Some (t, st') \<Longrightarrow> \<exists>new. token_map st' = token_map st @ new"
  by (drule tokenize_value_cases) auto

lemma tokenize_value_warnings:
  "tokenize_value g draws v st = Some (t, st') \<Longrightarrow> warnings st' = warnings st"
  by (drule tokenize_value_cases) auto

lemma tokenize_value_distinct_keys:
  "tokenize_value g draws v st = Some (t, st') \<Longrightarrow> distinct (dict_keys (token_map st))
     \<Longrightarrow> distinct (dict_keys (token_map st'))"
  by (drule tokenize_value_cases) (auto simp: dict_keys_def dict_contains_def)

lemma tokenize_value_distinct_values:
  "tokenize_value g draws v st = Some (t, st') \<Longrightarrow> distinct (map snd (token_map st))
     \<Longrightarrow> distinct (map snd (token_map st'))"
  by (drule tokenize_value_cases) (auto simp: find_token_None)

lemma dict_keys_set_present:
  "dict_get r k = Some c \<Longrightarrow> dict_keys (dict_set r k v) = dict_keys r"
  by (simp add: dict_keys_set dict_contains_get)

lemma tokenize_row_grows:
  "tokenize_row g draws cols r st = Some (r', st') \<Longrightarrow> \<exists>new. token_map st' = token_map st @ new"
proof (induction cols arbitrary: r st)
  case Nil
  then show ?case by simp
next
  case (Cons c cols)
  show ?case
  proof (cases "dict_get r c")
    case None
    with Cons.prems Cons.IH [of r "st\<lparr>warnings := warnings st @ [WarnColumnNotFound c]\<rparr>"]
    show ?thesis by simp
  next
    case (Some v)
    with Cons.prems obtain t st1 where
      tv: "tokenize_value g draws v st = Some (t, st1)"
      and rest: "tokenize_row g draws cols (dict_set r c (Some t)) st1 = Some (r', st')"
      by (auto split: option.splits)
    from tokenize_value_grows [OF tv] Cons.IH [OF rest] show ?thesis by auto
  qed
qed

lemma tokenize_row_keys:
  "tokenize_row g draws cols r st = Some (r', st') \<Longrightarrow> dict_keys r' = dict_keys r"
proof (induction cols arbitrary: r st)
  case Nil
  then show ?case by simp
next
  case (Cons c cols)
  show ?case
  proof (cases "dict_get r c")
    case None
    with Cons.prems Cons.IH [of r "st\<lparr>warnings := warnings st @ [WarnColumnNotFound c]\<rparr>"]
    show ?thesis by simp
  next
    case (Some v)
    with Cons.prems obtain t st1 where
      rest: "tokenize_row g draws cols (dict_set r c (Some t)) st1 = Some (r', st')"
      by (auto split: option.splits)
    from Cons.IH [OF rest] Some show ?thesis by (simp add: dict_keys_set_present)
  qed
qed

lemma tokenize_row_frame:
  "tokenize_row g draws cols r st = Some (r', st') \<Longrightarrow> k \<notin> set cols
     \<Longrightarrow> dict_get r' k = dict_get r k"
proof (induction cols arbitrary: r st)
  case Nil
  then show ?case by simp
next
  case (Cons c cols)
  show ?case
  proof (cases "dict_get r c")
    case None
    with Cons.prems Cons.IH [of r "st\<lparr>warnings := warnings st @ [WarnColumnNotFound c]\<rparr>"]
    show ?thesis by simp
  next
    case (Some v)
    with Cons.prems obtain t st1 where
      rest: "tokenize_row g draws cols (dict_set r c (Some t)) st1 = Some (r', st')"
      by (auto split: option.splits)
    from Cons.IH [OF rest] Cons.prems(2) show ?thesis by (simp add: dict_get_set)
  qed
qed

lemma tokenize_row_token:
  "tokenize_row g draws cols r st = Some (r', st') \<Longrightarrow> distinct cols \<Longrightarrow> k \<in> set cols
     \<Longrightarrow> dict_get r k = Some v
     \<Longrightarrow> \<exists>t. dict_get r' k = Some (Some t) \<and> find_token (token_map st') v = Some t"
proof (induction cols arbitrary: r st)
  case Nil
  then show ?case by simp
next
  case (Cons c cols)
  show ?case
  proof (cases "dict_get r c")
    case None
    with Cons.prems have "k \<noteq> c" by auto
    with None Cons.prems Cons.IH [of r "st\<lparr>warnings := warnings st @ [WarnColumnNotFound c]\<rparr>"]
    show ?thesis by simp
  next
    case (Some vc)
    with Cons.prems obtain t st1 where
      tv: "tokenize_value g draws vc st = Some (t, st1)"
      and rest: "tokenize_row g draws cols (dict_set r c (Some t)) st1 = Some (r', st')"
      by (auto split: option.splits)
    show ?thesis
    proof (cases "k = c")
      case True
      with Cons.prems have "k \<notin> set cols" by simp
      from tokenize_row_frame [OF rest this] True
      have "dict_get r' k = Some (Some t)" by (simp add: dict_get_set)
      moreover from True Some Cons.prems have "vc = v" by simp
      moreover from tokenize_row_grows [OF rest] tokenize_value_token [OF tv]
      have "find_token (token_map st') vc = Some t" by (auto simp: find_token_append)
      ultimately show ?thesis by simp
    next
      case False
      with Cons.prems have "k \<in> set cols" "distinct cols"
        "dict_get (dict_set r c (Some t)) k = Some v"
        by (simp_all add: dict_get_set)
      with Cons.IH [OF rest] show ?thesis by simp
    qed
  qed
qed

lemma tokenize_row_warnings:
  "tokenize_row g draws cols r st = Some (r', st')
     \<Longrightarrow> warnings st' =
         warnings st @ map WarnColumnNotFound (filter (\<lambda>c. dict_get r c = None) cols)"
proof (induction cols arbitrary: r st)
  case Nil
  then show ?case by simp
next
  case (Cons c cols)
  show ?case
  proof (cases "dict_get r c")
    case None
    with Cons.prems Cons.IH [of r "st\<lparr>warnings := warnings st @ [WarnColumnNotFound c]\<rparr>"]
    show ?thesis by simp
  next
    case (Some v)
    with Cons.prems obtain t st1 where
      tv: "tokenize_value g draws v st = Some (t, st1)"
      and rest: "tokenize_row g draws cols (dict_set r c (Some t)) st1 = Some (r', st')"
      by (auto split: option.splits)
    have "(\<lambda>k. dict_get (dict_set r c (Some t)) k = None) = (\<lambda>k. dict_get r k = None)"
      using Some by (auto simp: dict_get_set fun_eq_iff)
    with Cons.IH [OF rest] tokenize_value_warnings [OF tv] Some show ?thesis by simp
  qed
qed

lemma tokenize_row_distinct:
  "tokenize_row g draws cols r st = Some (r', st')
     \<Longrightarrow> (distinct (dict_keys (token_map st)) \<longrightarrow> distinct (dict_keys (token_map st')))
       \<and> (distinct (map snd (token_map st)) \<longrightarrow> distinct (map snd (token_map st')))"
proof (induction cols arbitrary: r st)
  case Nil
  then show ?case by simp
next
  case (Cons c cols)
  show ?case
  proof (cases "dict_get r c")
    case None
    with Cons.prems Cons.IH [of r "st\<lparr>warnings := warnings st @ [WarnColumnNotFound c]\<rparr>"]
    show ?thesis by simp
  next
    case (Some v)
    with Cons.prems obtain t st1 where
      tv: "tokenize_value g draws v st = Some (t, st1)"
      and rest: "tokenize_row g draws cols (dict_set r c (Some t)) st1 = Some (r', st')"
      by (auto split: option.splits)
    from Cons.IH [OF rest] tokenize_value_distinct_keys [OF tv]
      tokenize_value_distinct_values [OF tv]
    show ?thesis by blast
  qed
qed

section \<open>The loop over the records\<close>

lemma dict_get_None_iff: "dict_get m k = None \<longleftrightarrow> k \<notin> set (dict_keys m)"
  by (simp add: dict_get_def dict_keys_def map_of_eq_None_iff)

lemma tokenize_row_cell:
  assumes run: "tokenize_row g draws cols r st = Some (r', st')"
    and d: "distinct cols"
  shows "dict_get r' k = tokenized_cell (token_map st' @ ext) cols r k"
proof (cases "k \<in> set cols")
  case False
  with tokenize_row_frame [OF run] show ?thesis
    by (simp add: tokenized_cell_def split: option.splits)
next
  case True
  show ?thesis
  proof (cases "dict_get r k")
    case None
    then have "k \<notin> set (dict_keys r)"
      by (simp add: dict_get_None_iff)
    with tokenize_row_keys [OF run] have "dict_get r' k = None"
      by (simp add: dict_get_None_iff)
    with None show ?thesis by (simp add: tokenized_cell_def)
  next
    case (Some v)
    from tokenize_row_token [OF run d True Some] Some True show ?thesis
      by (auto simp: tokenized_cell_def find_token_append)
  qed
qed

lemma tokenized_cell_stable:
  assumes run: "tokenize_row g draws cols r st = Some (r', st')" and d: "distinct cols"
  shows "tokenized_cell (token_map st' @ ext) cols r k = tokenized_cell (token_map st') cols r k"
  using tokenize_row_cell [OF run d, of k ext] tokenize_row_cell [OF run d, of k "[]"]
  by simp

lemma tokenize_rows_grows:
  "tokenize_rows g draws cols fns rows st out = Some (res, out', st')
     \<Longrightarrow> \<exists>new. token_map st' = token_map st @ new"
proof (induction rows arbitrary: st out)
  case Nil
  then show ?case by simp
next
  case (Cons r rows)
  from Cons.prems obtain d st1 where
    row: "tokenize_row g draws cols (cells r) st = Some (d, st1)"
    by (auto split: option.splits)
  from tokenize_row_grows [OF row] obtain n1 where n1: "token_map st1 = token_map st @ n1" ..
  show ?case
  proof (cases "writerow fns (Row d (rest r))")
    case (Inl e)
    with Cons.prems row have "st' = st1" by simp
    with n1 show ?thesis by simp
  next
    case (Inr line)
    with Cons.prems row
    have "tokenize_rows g draws cols fns rows st1 (out @ [line]) = Some (res, out', st')"
      by simp
    from Cons.IH [OF this] n1 show ?thesis by auto
  qed
qed

lemma tokenize_rows_distinct:
  "tokenize_rows g draws cols fns rows st out = Some (res, out', st')
     \<Longrightarrow> (distinct (dict_keys (token_map st)) \<longrightarrow> distinct (dict_keys (token_map st')))
       \<and> (distinct (map snd (token_map st)) \<longrightarrow> distinct (map snd (token_map st')))"
proof (induction rows arbitrary: st out)
  case Nil
  then show ?case by simp
next
  case (Cons r rows)
  from Cons.prems obtain d st1 where
    row: "tokenize_row g draws cols (cells r) st = Some (d, st1)"
    by (auto split: option.splits)
  note d1 = tokenize_row_distinct [OF row]
  show ?case
  proof (cases "writerow fns (Row d (rest r))")
    case (Inl e)
    with Cons.prems row have "st' = st1" by simp
    with d1 show ?thesis by simp
  next
    case (Inr line)
    with Cons.prems row
    have "tokenize_rows g draws cols fns rows st1 (out @ [line]) = Some (res, out', st')"
      by simp
    from Cons.IH [OF this] d1 show ?thesis by blast
  qed
qed

lemma writerow_line:
  "writerow fns (Row d rs) = Inr line \<Longrightarrow>
     rs = [] \<and> set (dict_keys d) \<subseteq> set fns
     \<and> line = map (\<lambda>k. case dict_get d k of Some c \<Rightarrow> csv_field c | None \<Rightarrow> []) fns"
  by (auto simp: writerow_def split: if_splits)

lemma tokenize_rows_output:
  "tokenize_rows g draws cols fns rows st out = Some (Inr (), out', st') \<Longrightarrow> distinct cols
     \<Longrightarrow> out' = out @ map (\<lambda>r. tokenized_line (token_map st') cols fns (cells r)) rows
       \<and> (\<forall>r\<in>set rows. writable fns r)
       \<and> warnings st' = warnings st @ concat (map (\<lambda>r. map WarnColumnNotFound
             (filter (\<lambda>c. dict_get (cells r) c = None) cols)) rows)"
proof (induction rows arbitrary: st out)
  case Nil
  then show ?case by simp
next
  case (Cons r rows)
  from Cons.prems obtain d st1 where
    row: "tokenize_row g draws cols (cells r) st = Some (d, st1)"
    by (auto split: option.splits)
  from Cons.prems row obtain line where
    w: "writerow fns (Row d (rest r)) = Inr line"
    and rest: "tokenize_rows g draws cols fns rows st1 (out @ [line]) = Some (Inr (), out', st')"
    by (auto split: sum.splits)
  from tokenize_rows_grows [OF rest] obtain ext where
    ext: "token_map st' = token_map st1 @ ext" ..
  from writerow_line [OF w] have r0: "rest r = []" and ks: "set (dict_keys d) \<subseteq> set fns"
    and line: "line = map (\<lambda>k. case dict_get d k of Some c \<Rightarrow> csv_field c | None \<Rightarrow> []) fns"
    by simp_all
  have "line = tokenized_line (token_map st') cols fns (cells r)"
    unfolding line tokenized_line_def ext
    by (simp add: tokenize_row_cell [OF row Cons.prems(2), where ext = ext])
  moreover from r0 ks tokenize_row_keys [OF row] have "writable fns r"
    by (simp add: writable_def)
  moreover note Cons.IH [OF rest Cons.prems(2)] tokenize_row_warnings [OF row]
  ultimately show ?case by simp
qed

section \<open>Termination of tokenization\<close>

text \<open>
  The sequential generator always returns. The UUID generator returns when a later draw
  is not yet a key; that is so, for every mapping, when no UUID is drawn twice.
\<close>

lemma token_generator_returns:
  "g = GenSequential \<or> inj draws \<Longrightarrow> \<exists>y. token_generator g draws v m i = Some y"
proof (cases g)
  case GenSequential
  then show ?thesis by (simp add: token_generator_def)
next
  case GenUuid
  assume "g = GenSequential \<or> inj draws"
  with GenUuid have "inj draws" by simp
  from uuid_redraw_inj_returns [OF this] GenUuid show ?thesis
    by (cases "find_token m v") (simp_all add: token_generator_def generate_uuid_token_def)
qed

lemma tokenize_value_returns:
  assumes "g = GenSequential \<or> inj draws"
  shows "\<exists>y. tokenize_value g draws v st = Some y"
proof (cases "find_token (token_map st) v")
  case (Some t)
  then show ?thesis by (simp add: tokenize_value_def)
next
  case None
  from token_generator_returns [OF assms, of v "token_map st" "next_draw st"]
  obtain y where "token_generator g draws v (token_map st) (next_draw st) = Some y" ..
  with None show ?thesis by (cases y) (simp add: tokenize_value_def)
qed

lemma tokenize_row_returns:
  assumes "g = GenSequential \<or> inj draws"
  shows "\<exists>y. tokenize_row g draws cols r st = Some y"
proof (induction cols arbitrary: r st)
  case Nil
  show ?case by simp
next
  case (Cons c cols)
  show ?case
  proof (cases "dict_get r c")
    case None
    with Cons.IH show ?thesis by simp
  next
    case (Some v)
    from tokenize_value_returns [OF assms, of v st]
    obtain t st1 where "tokenize_value g draws v st = Some (t, st1)" by auto
    with Some Cons.IH [of "dict_set r c (Some t)" st1] show ?thesis by simp
  qed
qed

lemma tokenize_rows_returns:
  assumes "g = GenSequential \<or> inj draws"
  shows "\<exists>y. tokenize_rows g draws cols fns rows st out = Some y"
proof (induction rows arbitrary: st out)
  case Nil
  show ?case by simp
next
  case (Cons r rows)
  from tokenize_row_returns [OF assms, of cols "cells r" st]
  obtain d st1 where row: "tokenize_row g draws cols (cells r) st = Some (d, st1)" by auto
  show ?case
  proof (cases "writerow fns (Row d (rest r))")
    case (Inl e)
    with row show ?thesis by simp
  next
    case (Inr line)
    with row Cons.IH [of st1 "out @ [line]"] show ?thesis by simp
  qed
qed

lemma writerow_writable:
  "writable fns (Row d rs) \<Longrightarrow>
     writerow fns (Row d rs) =
       Inr (map (\<lambda>k. case dict_get d k of Some c \<Rightarrow> csv_field c | None \<Rightarrow> []) fns)"
  by (simp add: writable_def writerow_def)

lemma tokenize_rows_succeeds:
  "tokenize_rows g draws cols fns rows st out = Some (res, out', st')
     \<Longrightarrow> \<forall>r\<in>set rows. writable fns r \<Longrightarrow> res = Inr ()"
proof (induction rows arbitrary: st out)
  case Nil
  then show ?case by simp
next
  case (Cons r rows)
  from Cons.prems obtain d st1 where
    row: "tokenize_row g draws cols (cells r) st = Some (d, st1)"
    by (auto split: option.splits)
  from Cons.prems(2) tokenize_row_keys [OF row] have "writable fns (Row d (rest r))"
    by (simp add: writable_def)
  from writerow_writable [OF this] row Cons.prems Cons.IH show ?case by simp
qed

section \<open>Growth of the mapping\<close>

lemma extends_fresh_refl: "extends_fresh m m"
  by (simp add: extends_fresh_def dict_keys_def)

lemma extends_fresh_trans:
  assumes "extends_fresh a b" and "extends_fresh b c"
  shows "extends_fresh a c"
proof -
  from assms(1) obtain n1 where b: "b = a @ n1"
    and 1: "distinct (dict_keys n1)" "set (dict_keys n1) \<inter> set (dict_keys a) = {}"
      "distinct (map snd n1)" "set (map snd n1) \<inter> set (map snd a) = {}"
    unfolding extends_fresh_def by blast
  from assms(2) obtain n2 where c: "c = b @ n2"
    and 2: "distinct (dict_keys n2)" "set (dict_keys n2) \<inter> set (dict_keys b) = {}"
      "distinct (map snd n2)" "set (map snd n2) \<inter> set (map snd b) = {}"
    unfolding extends_fresh_def by blast
  have "c = a @ (n1 @ n2)" by (simp add: b c)
  moreover from 1 2 have "distinct (dict_keys (n1 @ n2))"
    "set (dict_keys (n1 @ n2)) \<inter> set (dict_keys a) = {}"
    by (auto simp: dict_keys_def b)
  moreover from 1 2 have "distinct (map snd (n1 @ n2))"
    "set (map snd (n1 @ n2)) \<inter> set (map snd a) = {}"
    by (auto simp: b)
  ultimately show ?thesis unfolding extends_fresh_def by blast
qed

lemma tokenize_value_extends:
  "tokenize_value g draws v st = Some (t, st') \<Longrightarrow> extends_fresh (token_map st) (token_map st')"
proof (drule tokenize_value_cases, elim disjE conjE exE)
  assume "st' = st"
  then show ?thesis by (simp add: extends_fresh_refl)
next
  fix i
  assume "find_token (token_map st) v = None" "\<not> dict_contains (token_map st) t"
    "st' = st\<lparr>token_map := token_map st @ [(t, v)], next_draw := i\<rparr>"
  then show ?thesis
    by (auto simp: extends_fresh_def dict_keys_def dict_contains_def find_token_None
        intro!: exI [of _ "[(t, v)]"])
qed

lemma tokenize_row_extends:
  "tokenize_row g draws cols r st = Some (r', st') \<Longrightarrow> extends_fresh (token_map st) (token_map st')"
proof (induction cols arbitrary: r st)
  case Nil
  then show ?case by (simp add: extends_fresh_refl)
next
  case (Cons c cols)
  show ?case
  proof (cases "dict_get r c")
    case None
    with Cons.prems Cons.IH [of r "st\<lparr>warnings := warnings st @ [WarnColumnNotFound c]\<rparr>"]
    show ?thesis by simp
  next
    case (Some v)
    with Cons.prems obtain t st1 where
      tv: "tokenize_value g draws v st = Some (t, st1)"
      and rest: "tokenize_row g draws cols (dict_set r c (Some t)) st1 = Some (r', st')"
      by (auto split: option.splits)
    from tokenize_value_extends [OF tv] Cons.IH [OF rest] show ?thesis
      by (rule extends_fresh_trans)
  qed
qed

lemma tokenize_rows_extends:
  "tokenize_rows g draws cols fns rows st out = Some (res, out', st')
     \<Longrightarrow> extends_fresh (token_map st) (token_map st')"
proof (induction rows arbitrary: st out)
  case Nil
  then show ?case by (simp add: extends_fresh_refl)
next
  case (Cons r rows)
  from Cons.prems obtain d st1 where
    row: "tokenize_row g draws cols (cells r) st = Some (d, st1)"
    by (auto split: option.splits)
  note e1 = tokenize_row_extends [OF row]
  show ?case
  proof (cases "writerow fns (Row d (rest r))")
    case (Inl e)
    with Cons.prems row have "st' = st1" by simp
    with e1 show ?thesis by simp
  next
    case (Inr line)
    with Cons.prems row
    have "tokenize_rows g draws cols fns rows st1 (out @ [line]) = Some (res, out', st')"
      by simp
    from e1 Cons.IH [OF this] show ?thesis by (rule extends_fresh_trans)
  qed
qed

lemma extends_fresh_get:
  "extends_fresh m m' \<Longrightarrow> dict_get m t = Some v \<Longrightarrow> dict_get m' t = Some v"
  by (auto simp: extends_fresh_def dict_get_def)

lemma extends_fresh_find:
  "extends_fresh m m' \<Longrightarrow> find_token m v = Some t \<Longrightarrow> find_token m' v = Some t"
  by (auto simp: extends_fresh_def find_token_append)

lemma extends_fresh_distinct:
  assumes "extends_fresh m m'"
  shows "(distinct (dict_keys m) \<longrightarrow> distinct (dict_keys m'))
     \<and> (distinct (map snd m) \<longrightarrow> distinct (map snd m'))"
proof -
  from assms obtain new where m': "m' = m @ new"
    and k: "distinct (dict_keys new)" "set (dict_keys new) \<inter> set (dict_keys m) = {}"
    and v: "distinct (map snd new)" "set (map snd new) \<inter> set (map snd m) = {}"
    unfolding extends_fresh_def by blast
  from k have "distinct (dict_keys m) \<longrightarrow> distinct (dict_keys m')"
    unfolding m' dict_keys_def by (simp add: Int_commute)
  moreover from v have "distinct (map snd m) \<longrightarrow> distinct (map snd m')"
    unfolding m' by (simp add: Int_commute)
  ultimately show ?thesis by simp
qed

section \<open>The invariant of the mapping\<close>

lemma load_token_map_distinct_keys:
  "distinct (dict_keys tm) \<Longrightarrow> distinct (dict_keys (fst (load_token_map rows tm lg)))"
  by (induction rows arbitrary: tm lg) (simp_all add: distinct_dict_set)

text \<open>
  C4. Whatever tokenization inserts, with either strategy: the new entries have new,
  pairwise different tokens and new, pairwise different values, so a mapping whose
  tokens (values) are pairwise different stays so; the mapping loaded from a file has
  pairwise different tokens. A generated token is not a key of the mapping. A value that
  has a token gets that token and nothing else happens (no token is generated, no UUID
  drawn, nothing inserted); an insertion happens only for a value without a token, and
  appends one entry under a token that was not a key.
\<close>

theorem mapping_invariant:
  "(\<forall>res out' st'. tokenize_rows g draws cols fns rows st out = Some (res, out', st') \<longrightarrow>
      extends_fresh (token_map st) (token_map st')
      \<and> (distinct (dict_keys (token_map st)) \<longrightarrow> distinct (dict_keys (token_map st')))
      \<and> (distinct (map snd (token_map st)) \<longrightarrow> distinct (map snd (token_map st'))))
   \<and> distinct (dict_keys (fst (load_token_map file [] [])))
   \<and> (\<forall>t j. find_token m v = None \<and> token_generator g draws v m i = Some (t, j)
        \<longrightarrow> \<not> dict_contains m t)
   \<and> (\<forall>t. find_token (token_map st) v = Some t \<longrightarrow> tokenize_value g draws v st = Some (t, st))
   \<and> (\<forall>t s'. tokenize_value g draws v st = Some (t, s') \<and> s' \<noteq> st \<longrightarrow>
        find_token (token_map st) v = None \<and> \<not> dict_contains (token_map st) t
        \<and> token_map s' = token_map st @ [(t, v)])"
proof (intro conjI allI impI)
  fix res out' st'
  assume run: "tokenize_rows g draws cols fns rows st out = Some (res, out', st')"
  from tokenize_rows_extends [OF run]
  show e: "extends_fresh (token_map st) (token_map st')" .
  assume "distinct (dict_keys (token_map st))"
  with extends_fresh_distinct [OF e] show "distinct (dict_keys (token_map st'))" by simp
next
  fix res out' st'
  assume run: "tokenize_rows g draws cols fns rows st out = Some (res, out', st')"
    and "distinct (map snd (token_map st))"
  with extends_fresh_distinct [OF tokenize_rows_extends [OF run]]
  show "distinct (map snd (token_map st'))" by simp
next
  show "distinct (dict_keys (fst (load_token_map file [] [])))"
    by (rule load_token_map_distinct_keys) (simp add: dict_keys_def)
next
  fix t j
  assume "find_token m v = None \<and> token_generator g draws v m i = Some (t, j)"
  then show "\<not> dict_contains m t" using token_generator_fresh by blast
next
  fix t
  assume "find_token (token_map st) v = Some t"
  then show "tokenize_value g draws v st = Some (t, st)" by (simp add: tokenize_value_def)
next
  fix t s'
  assume a: "tokenize_value g draws v st = Some (t, s') \<and> s' \<noteq> st"
  then have "tokenize_value g draws v st = Some (t, s')" and ne: "s' \<noteq> st" by simp_all
  from tokenize_value_cases [OF this(1)] ne
  show "find_token (token_map st) v = None" "\<not> dict_contains (token_map st) t"
    "token_map s' = token_map st @ [(t, v)]"
    by auto
qed

theorem mapping_invariant_witness:
  "tokenize_rows GenUuid (\<lambda>i. if i = 0 then ''t1'' else ''u'' @ str_nat i) [''ssn''] [''id'', ''ssn'']
      (dict_reader [''id'', ''ssn''] [[''1'', ''a''], [''2'', ''b''], [''3'', ''a'']])
      \<lparr>token_map = [(''t1'', Some ''z'')], next_draw = 0, warnings = []\<rparr> [[''id'', ''ssn'']]
     = Some (Inr (), [[''id'', ''ssn''], [''1'', ''u1''], [''2'', ''u2''], [''3'', ''u1'']],
         \<lparr>token_map = [(''t1'', Some ''z''), (''u1'', Some ''a''), (''u2'', Some ''b'')],
           next_draw = 3, warnings = []\<rparr>)
   \<and> distinct (dict_keys [(''t1'', Some ''z'')])
   \<and> distinct (map snd [(''t1'', Some ''z'')])
   \<and> distinct (dict_keys [(''t1'', Some ''z''), (''u1'', Some ''a''), (''u2'', Some ''b'')])
   \<and> distinct (map snd [(''t1'', Some ''z''), (''u1'', Some ''a''), (''u2'', Some ''b'')])"
proof -
  let ?draws = "\<lambda>i :: nat. if i = 0 then ''t1'' else ''u'' @ str_nat i"
  let ?st = "\<lparr>token_map = [(''t1'', Some ''z'')], next_draw = 0, warnings = []\<rparr>"
  let ?st' = "\<lparr>token_map = [(''t1'', Some ''z''), (''u1'', Some ''a''), (''u2'', Some ''b'')],
           next_draw = 3, warnings = []\<rparr>"
  have run: "tokenize_rows GenUuid ?draws [''ssn''] [''id'', ''ssn'']
      (dict_reader [''id'', ''ssn''] [[''1'', ''a''], [''2'', ''b''], [''3'', ''a'']])
      ?st [[''id'', ''ssn'']]
     = Some (Inr (), [[''id'', ''ssn''], [''1'', ''u1''], [''2'', ''u2''], [''3'', ''u1'']], ?st')"
    by code_simp
  have d: "distinct (dict_keys (token_map ?st))" "distinct (map snd (token_map ?st))"
    by (simp_all add: dict_keys_def)
  from mapping_invariant [of GenUuid ?draws "[''ssn'']" "[''id'', ''ssn'']"
      "dict_reader [''id'', ''ssn''] [[''1'', ''a''], [''2'', ''b''], [''3'', ''a'']]"
      ?st "[[''id'', ''ssn'']]", THEN conjunct1, rule_format, OF run] d
  have "distinct (dict_keys (token_map ?st'))" "distinct (map snd (token_map ?st'))"
    by blast+
  with run d show ?thesis by simp
qed

section \<open>The sequential strategy\<close>

lemma counted_contains:
  "counted m \<Longrightarrow> dict_contains m (str_nat n) \<longleftrightarrow> 1 \<le> n \<and> n \<le> length m"
  by (auto simp: counted_def dict_contains_def)

lemma seq_scan_counted:
  assumes "counted m"
  shows "seq_scan m 1 = Suc (length m)"
proof -
  let ?s = "seq_scan m 1"
  from seq_scan_ge [of 1 m] seq_scan_free [of m 1] counted_contains [OF assms, of ?s]
  have lo: "Suc (length m) \<le> ?s" by simp
  have "\<not> Suc (length m) < ?s"
  proof
    assume "Suc (length m) < ?s"
    with seq_scan_below [of 1 "Suc (length m)" m] have "dict_contains m (str_nat (Suc (length m)))"
      by simp
    with counted_contains [OF assms, of "Suc (length m)"] show False by simp
  qed
  with lo show ?thesis by simp
qed

lemma tokenize_value_counted:
  assumes "tokenize_value GenSequential draws v st = Some (t, st')" and "counted (token_map st)"
  shows "counted (token_map st')"
proof -
  from tokenize_value_cases [OF assms(1)] show ?thesis
  proof (elim disjE conjE exE)
    assume "st' = st"
    with assms(2) show ?thesis by simp
  next
    fix i
    assume n: "find_token (token_map st) v = None"
      and gen: "token_generator GenSequential draws v (token_map st) (next_draw st) = Some (t, i)"
      and st': "st' = st\<lparr>token_map := token_map st @ [(t, v)], next_draw := i\<rparr>"
    from gen n have "t = str_nat (seq_scan (token_map st) 1)"
      by (simp add: token_generator_def generate_sequential_token_def)
    with seq_scan_counted [OF assms(2)] have "t = str_nat (Suc (length (token_map st)))"
      by simp
    with assms(2) st' show ?thesis by (simp add: counted_def dict_keys_def)
  qed
qed

lemma tokenize_row_counted:
  "tokenize_row GenSequential draws cols r st = Some (r', st') \<Longrightarrow> counted (token_map st)
     \<Longrightarrow> counted (token_map st')"
proof (induction cols arbitrary: r st)
  case Nil
  then show ?case by simp
next
  case (Cons c cols)
  show ?case
  proof (cases "dict_get r c")
    case None
    with Cons.prems Cons.IH [of r "st\<lparr>warnings := warnings st @ [WarnColumnNotFound c]\<rparr>"]
    show ?thesis by simp
  next
    case (Some v)
    with Cons.prems obtain t st1 where
      tv: "tokenize_value GenSequential draws v st = Some (t, st1)"
      and rest: "tokenize_row GenSequential draws cols (dict_set r c (Some t)) st1 = Some (r', st')"
      by (auto split: option.splits)
    from Cons.IH [OF rest tokenize_value_counted [OF tv Cons.prems(2)]] show ?thesis .
  qed
qed

lemma tokenize_rows_counted:
  "tokenize_rows GenSequential draws cols fns rows st out = Some (res, out', st')
     \<Longrightarrow> counted (token_map st) \<Longrightarrow> counted (token_map st')"
proof (induction rows arbitrary: st out)
  case Nil
  then show ?case by simp
next
  case (Cons r rows)
  from Cons.prems obtain d st1 where
    row: "tokenize_row GenSequential draws cols (cells r) st = Some (d, st1)"
    by (auto split: option.splits)
  note c1 = tokenize_row_counted [OF row Cons.prems(2)]
  show ?case
  proof (cases "writerow fns (Row d (rest r))")
    case (Inl e)
    with Cons.prems row have "st' = st1" by simp
    with c1 show ?thesis by simp
  next
    case (Inr line)
    with Cons.prems row
    have "tokenize_rows GenSequential draws cols fns rows st1 (out @ [line]) = Some (res, out', st')"
      by simp
    from Cons.IH [OF this c1] show ?thesis .
  qed
qed

text \<open>
  C2. With the sequential strategy on a fresh (empty) mapping, the entries of the mapping,
  which are in the order of their assignment, have the keys \<^verbatim>\<open>"1"\<close>, \<^verbatim>\<open>"2"\<close>, ... and
  pairwise different values: the \<open>n\<close>-th distinct value assigned has the token \<open>str_nat n\<close>.
  For a value without a token (the only case in which the tokenizer calls the generator
  and the scan of lines 73-77 runs) the sequential generator returns the string of the
  least positive integer whose string is not a key. An entry of the mapping is never
  changed by a later assignment: its token keeps its value.
\<close>

theorem sequential_tokens:
  "(\<forall>res out' st'.
       tokenize_rows GenSequential draws cols fns rows
         \<lparr>token_map = [], next_draw = i, warnings = ws\<rparr> out = Some (res, out', st') \<longrightarrow>
       dict_keys (token_map st') = map str_nat [1..<Suc (length (token_map st'))]
       \<and> distinct (map snd (token_map st'))
       \<and> (\<forall>n<length (token_map st'). fst (token_map st' ! n) = str_nat (Suc n)))
   \<and> (find_token m v = None \<longrightarrow>
        generate_sequential_token v m =
          str_nat (LEAST n. 0 < n \<and> \<not> dict_contains m (str_nat n)))
   \<and> (\<forall>res out' st' t x.
        tokenize_rows GenSequential draws cols fns rows st out = Some (res, out', st')
        \<and> dict_get (token_map st) t = Some x \<longrightarrow> dict_get (token_map st') t = Some x)"
proof (intro conjI allI impI)
  fix res out' st'
  let ?st = "\<lparr>token_map = [], next_draw = i, warnings = ws\<rparr>"
  assume run: "tokenize_rows GenSequential draws cols fns rows ?st out = Some (res, out', st')"
  have "counted (token_map ?st)" by (simp add: counted_def dict_keys_def)
  from tokenize_rows_counted [OF run this]
  show k: "dict_keys (token_map st') = map str_nat [1..<Suc (length (token_map st'))]"
    by (simp add: counted_def)
  from extends_fresh_distinct [OF tokenize_rows_extends [OF run]]
  show "distinct (map snd (token_map st'))" by simp
  fix n assume n: "n < length (token_map st')"
  then have "fst (token_map st' ! n) = dict_keys (token_map st') ! n"
    by (simp add: dict_keys_def)
  also from n have "\<dots> = str_nat (Suc n)"
    unfolding k by (simp del: upt_Suc)
  finally show "fst (token_map st' ! n) = str_nat (Suc n)" .
next
  assume "find_token m v = None"
  then show "generate_sequential_token v m =
      str_nat (LEAST n. 0 < n \<and> \<not> dict_contains m (str_nat n))"
    using seq_scan_Least [of m] by (simp add: generate_sequential_token_def)
next
  fix res out' st' t x
  assume "tokenize_rows GenSequential draws cols fns rows st out = Some (res, out', st')
      \<and> dict_get (token_map st) t = Some x"
  then show "dict_get (token_map st') t = Some x"
    using extends_fresh_get tokenize_rows_extends by blast
qed

theorem sequential_tokens_witness:
  "tokenize_rows GenSequential (\<lambda>i. []) [''ssn''] [''id'', ''name'', ''ssn'']
      (dict_reader [''id'', ''name'', ''ssn'']
         [[''1'', ''Alice'', ''111-22-3333''], [''2'', ''Bob'', ''444-55-6666''],
          [''3'', ''Alice'', ''777-88-9999'']])
      \<lparr>token_map = [], next_draw = 0, warnings = []\<rparr> [[''id'', ''name'', ''ssn'']]
     = Some (Inr (),
         [[''id'', ''name'', ''ssn''], [''1'', ''Alice'', ''1''], [''2'', ''Bob'', ''2''],
          [''3'', ''Alice'', ''3'']],
         \<lparr>token_map = [(''1'', Some ''111-22-3333''), (''2'', Some ''444-55-6666''),
             (''3'', Some ''777-88-9999'')], next_draw = 0, warnings = []\<rparr>)
   \<and> dict_keys [(''1'', Some ''111-22-3333''), (''2'', Some ''444-55-6666''),
             (''3'', Some ''777-88-9999'')] = [str_nat 1, str_nat 2, str_nat 3]
   \<and> find_token [(''1'', Some ''a''), (''3'', Some ''b'')] (Some ''c'') = None
   \<and> generate_sequential_token (Some ''c'') [(''1'', Some ''a''), (''3'', Some ''b'')] =
       str_nat (LEAST n. 0 < n \<and> \<not> dict_contains [(''1'', Some ''a''), (''3'', Some ''b'')] (str_nat n))"
proof -
  let ?st = "\<lparr>token_map = [], next_draw = 0, warnings = []\<rparr>"
  let ?tm = "[(''1'', Some ''111-22-3333''), (''2'', Some ''444-55-6666''),
             (''3'', Some ''777-88-9999'')]"
  let ?rows = "dict_reader [''id'', ''name'', ''ssn'']
         [[''1'', ''Alice'', ''111-22-3333''], [''2'', ''Bob'', ''444-55-6666''],
          [''3'', ''Alice'', ''777-88-9999'']]"
  have run: "tokenize_rows GenSequential (\<lambda>i. []) [''ssn''] [''id'', ''name'', ''ssn''] ?rows
      ?st [[''id'', ''name'', ''ssn'']]
     = Some (Inr (),
         [[''id'', ''name'', ''ssn''], [''1'', ''Alice'', ''1''], [''2'', ''Bob'', ''2''],
          [''3'', ''Alice'', ''3'']],
         \<lparr>token_map = ?tm, next_draw = 0, warnings = []\<rparr>)"
    by code_simp
  have f: "find_token [(''1'', Some ''a''), (''3'', Some ''b'')] (Some ''c'') = None"
    by simp
  note inst = sequential_tokens [of "\<lambda>i. []" "[''ssn'']" "[''id'', ''name'', ''ssn'']" ?rows 0 "[]"
      "[[''id'', ''name'', ''ssn'']]" "[(''1'', Some ''a''), (''3'', Some ''b'')]" "Some ''c''"]
  from inst [THEN conjunct1, rule_format, OF run, THEN conjunct1]
  have k: "dict_keys ?tm = [str_nat 1, str_nat 2, str_nat 3]"
    by (simp add: eval_nat_numeral)
  from inst [THEN conjunct2, THEN conjunct1, rule_format, OF f]
  have g: "generate_sequential_token (Some ''c'') [(''1'', Some ''a''), (''3'', Some ''b'')] =
       str_nat (LEAST n. 0 < n \<and> \<not> dict_contains [(''1'', Some ''a''), (''3'', Some ''b'')] (str_nat n))" .
  from run k f g show ?thesis by blast
qed

section \<open>Detokenization of one record\<close>

lemma detokenize_row_step:
  "dict_get r c = Some x \<Longrightarrow>
     detokenize_row tm (c # cols) r = detokenize_row tm cols (dict_set r c (lookup_once tm x))
     \<or> (lookup_once tm x = x \<and> detokenize_row tm (c # cols) r = detokenize_row tm cols r)"
  by (cases x) (auto simp: lookup_once_def split: option.splits)

lemma dict_set_same: "dict_get r c = Some x \<Longrightarrow> dict_get (dict_set r c x) = dict_get r"
  by (auto simp: dict_get_set fun_eq_iff)

lemma detokenize_row_cells:
  "detokenize_row tm cols r = Inr r' \<Longrightarrow>
     dict_get r' k = map_option (lookup_once tm ^^ count_list cols k) (dict_get r k)"
proof (induction cols arbitrary: r)
  case Nil
  then show ?case by (simp add: option.map_ident)
next
  case (Cons c cols)
  from Cons.prems obtain x where x: "dict_get r c = Some x"
    by (cases "dict_get r c") simp_all
  let ?r1 = "dict_set r c (lookup_once tm x)"
  have "detokenize_row tm cols ?r1 = Inr r' \<or>
      (lookup_once tm x = x \<and> detokenize_row tm cols r = Inr r')"
    using detokenize_row_step [OF x, of tm cols] Cons.prems by auto
  then have r1: "dict_get r' k =
      map_option (lookup_once tm ^^ count_list cols k) (dict_get ?r1 k)"
  proof
    assume "detokenize_row tm cols ?r1 = Inr r'"
    from Cons.IH [OF this] show ?thesis .
  next
    assume a: "lookup_once tm x = x \<and> detokenize_row tm cols r = Inr r'"
    then have "dict_get ?r1 k = dict_get r k" using x by (simp add: dict_get_set)
    with a Cons.IH [of r] show ?thesis by simp
  qed
  show ?case
  proof (cases "k = c")
    case True
    with r1 x show ?thesis by (simp add: dict_get_set funpow_swap1)
  next
    case False
    with r1 show ?thesis by (simp add: dict_get_set)
  qed
qed

lemma detokenize_row_keys:
  "detokenize_row tm cols r = Inr r' \<Longrightarrow> dict_keys r' = dict_keys r"
proof (induction cols arbitrary: r)
  case Nil
  then show ?case by simp
next
  case (Cons c cols)
  from Cons.prems obtain x where x: "dict_get r c = Some x"
    by (cases "dict_get r c") simp_all
  let ?r1 = "dict_set r c (lookup_once tm x)"
  have "detokenize_row tm cols ?r1 = Inr r' \<or> detokenize_row tm cols r = Inr r'"
    using detokenize_row_step [OF x, of tm cols] Cons.prems by auto
  with Cons.IH x show ?case by (auto simp: dict_keys_set_present)
qed

lemma detokenize_row_returns:
  "set cols \<subseteq> set (dict_keys r) \<Longrightarrow> \<exists>r'. detokenize_row tm cols r = Inr r'"
proof (induction cols arbitrary: r)
  case Nil
  show ?case by simp
next
  case (Cons c cols)
  from Cons.prems obtain x where x: "dict_get r c = Some x"
    by (cases "dict_get r c") (simp_all add: dict_get_None_iff)
  have k: "set cols \<subseteq> set (dict_keys (dict_set r c (lookup_once tm x)))"
    using Cons.prems x by (simp add: dict_keys_set_present)
  from detokenize_row_step [OF x, of tm cols] Cons.IH [OF k] Cons.IH [of r] Cons.prems
  show ?case by auto
qed

section \<open>Lookups per cell\<close>

lemma dict_of_zip_keys:
  "set (dict_keys (dict_of_zip ks vs d)) = set (dict_keys d) \<union> set (take (length vs) ks)"
proof (induction ks vs d rule: dict_of_zip.induct)
  case (1 k ks v vs d)
  then show ?case by (auto simp: dict_keys_set dict_contains_def)
qed simp_all

lemma fill_restval_keys:
  "set (dict_keys (fill_restval ks d)) = set (dict_keys d) \<union> set ks"
  by (induction ks arbitrary: d) (auto simp: dict_keys_set dict_contains_def)

lemma dict_reader_row_keys:
  "set (dict_keys (cells (dict_reader_row fns raw))) = set fns"
proof -
  have e: "set (dict_keys ([] :: cell dict)) = {}" by (simp add: dict_keys_def)
  consider "length fns < length raw" | "length raw < length fns" | "length fns = length raw"
    by linarith
  then show ?thesis
  proof cases
    case 1
    then show ?thesis by (simp add: dict_reader_row_def Let_def dict_of_zip_keys e)
  next
    case 2
    have "set (take (length raw) fns) \<union> set (drop (length raw) fns) = set fns"
      by (metis append_take_drop_id set_append)
    with 2 show ?thesis
      by (simp add: dict_reader_row_def Let_def dict_of_zip_keys fill_restval_keys e)
  next
    case 3
    then show ?thesis by (simp add: dict_reader_row_def Let_def dict_of_zip_keys e)
  qed
qed

lemma count_list_distinct: "distinct xs \<Longrightarrow> x \<in> set xs \<Longrightarrow> count_list xs x = 1"
  by (induction xs) auto

text \<open>
  C9, as the code has it. Detokenizing a record looks the cell of a column up once for
  each occurrence of the column's name in the header (\<^verbatim>\<open>for column in reader.fieldnames\<close>):
  the cell ends as the \<open>count_list fieldnames k\<close>-fold lookup of its value. When the names
  of the header are pairwise different, every cell is looked up exactly once, the
  value that replaces it is not looked up again, and a chain of tokens is not followed;
  a cell under no header name is not touched. On the records of \<^verbatim>\<open>DictReader\<close>, which have
  every header name as a key, the loop raises no \<^verbatim>\<open>KeyError\<close>.
\<close>

theorem detokenize_row_lookups:
  "(\<forall>r'. detokenize_row tm fieldnames r = Inr r' \<longrightarrow>
      (\<forall>k. dict_get r' k =
            map_option (lookup_once tm ^^ count_list fieldnames k) (dict_get r k))
      \<and> (distinct fieldnames \<longrightarrow>
            (\<forall>k\<in>set fieldnames. dict_get r' k = map_option (lookup_once tm) (dict_get r k))
            \<and> (\<forall>k. k \<notin> set fieldnames \<longrightarrow> dict_get r' k = dict_get r k)))
   \<and> (\<exists>r'. detokenize_row tm fieldnames (cells (dict_reader_row fieldnames raw)) = Inr r')"
proof (intro conjI allI impI ballI)
  fix r'
  assume run: "detokenize_row tm fieldnames r = Inr r'"
  note c = detokenize_row_cells [OF run]
  show "dict_get r' k = map_option (lookup_once tm ^^ count_list fieldnames k) (dict_get r k)"
    for k by (rule c)
  {
    fix k assume "distinct fieldnames" "k \<in> set fieldnames"
    then have "count_list fieldnames k = 1" by (rule count_list_distinct)
    with c [of k] show "dict_get r' k = map_option (lookup_once tm) (dict_get r k)" by simp
  }
  {
    fix k assume "k \<notin> set fieldnames"
    with c [of k] show "dict_get r' k = dict_get r k" by (simp add: option.map_id)
  }
next
  show "\<exists>r'. detokenize_row tm fieldnames (cells (dict_reader_row fieldnames raw)) = Inr r'"
    by (rule detokenize_row_returns) (simp add: dict_reader_row_keys)
qed

theorem detokenize_row_lookups_witness:
  "detokenize_row [(''t1'', Some ''t2''), (''t2'', Some ''v'')] [''a'', ''b'']
       (cells (dict_reader_row [''a'', ''b''] [''t1'', ''x'']))
     = Inr [(''a'', Some ''t2''), (''b'', Some ''x'')]
   \<and> distinct [''a'', ''b'']
   \<and> dict_get [(''a'', Some ''t2''), (''b'', Some ''x'')] ''a''
       = map_option (lookup_once [(''t1'', Some ''t2''), (''t2'', Some ''v'')])
           (dict_get (cells (dict_reader_row [''a'', ''b''] [''t1'', ''x''])) ''a'')"
proof -
  let ?tm = "[(''t1'', Some ''t2''), (''t2'', Some ''v'')]"
  let ?r = "cells (dict_reader_row [''a'', ''b''] [''t1'', ''x''])"
  have run: "detokenize_row ?tm [''a'', ''b''] ?r = Inr [(''a'', Some ''t2''), (''b'', Some ''x'')]"
    by code_simp
  have d: "distinct [''a'', ''b'']" by simp
  have m: "''a'' \<in> set [''a'', ''b'']" by simp
  from detokenize_row_lookups [of ?tm "[''a'', ''b'']" ?r "[]", THEN conjunct1, rule_format,
      OF run, THEN conjunct2, rule_format, OF d, THEN conjunct1, rule_format, OF m]
  have "dict_get [(''a'', Some ''t2''), (''b'', Some ''x'')] ''a''
       = map_option (lookup_once ?tm) (dict_get ?r ''a'')" .
  with run d show ?thesis by blast
qed

text \<open>
  The claim as stated, "every cell is looked up at most once, a chain is never followed",
  fails on a header that repeats a column name: with the mapping \<^verbatim>\<open>t1,t2 / t2,v\<close> and the
  input \<^verbatim>\<open>a,a / t1,t1\<close> the cell \<^verbatim>\<open>t1\<close> is written as \<^verbatim>\<open>v\<close>, the second link of the chain,
  while one lookup gives \<^verbatim>\<open>t2\<close>.
\<close>

theorem detokenize_chain_counterexample:
  "detokenize_rows (fst (load_token_map [[''t1'', ''t2''], [''t2'', ''v'']] [] []))
       [''a'', ''a''] (dict_reader [''a'', ''a''] [[''t1'', ''t1'']]) [[''a'', ''a'']]
     = (Inr (), [[''a'', ''a''], [''v'', ''v'']])
   \<and> lookup_once (fst (load_token_map [[''t1'', ''t2''], [''t2'', ''v'']] [] [])) (Some ''t1'')
     = Some ''t2''
   \<and> detokenize_row (fst (load_token_map [[''t1'', ''t2''], [''t2'', ''v'']] [] []))
       [''a'', ''a''] (cells (dict_reader_row [''a'', ''a''] [''t1'', ''t1'']))
     \<noteq> Inr [(''a'', Some ''t2'')]"
  by code_simp

section \<open>The file-level operations\<close>

lemma read_existing_token_map_eq:
  "read_existing_token_map token_map_file w =
     ((case load_error w token_map_file of
         Some e \<Rightarrow> Inl e
       | None \<Rightarrow> Inr (loaded_map w token_map_file)),
      w\<lparr>trace := trace w @ load_trace w token_map_file,
        log := log w @ load_log w token_map_file\<rparr>)"
  by (auto simp: read_existing_token_map_def load_error_def loaded_map_def load_trace_def
      load_log_def path_exists_def open_read_def Let_def split: option.splits prod.splits)

lemma tokenize_records_success:
  assumes inp: "files w input_file = Some (fieldnames # rs)"
    and ne: "input_file \<noteq> output_file"
    and ok: "open_fault w input_file = None" "read_fault w input_file = None"
      "write_fault w output_file = None"
    and run: "tokenize_rows g draws cols fieldnames (dict_reader fieldnames rs)
        \<lparr>token_map = tm, next_draw = rng w, warnings = []\<rparr> [fieldnames] = Some (Inr (), out, st)"
  shows "\<exists>w'. tokenize_records g draws input_file output_file cols tm w
           = Some (Inr (token_map st), w')
         \<and> files w' = (files w)(output_file \<mapsto> out)
         \<and> open_fault w' = open_fault w
         \<and> read_fault w' = (read_fault w)(output_file := None)
         \<and> write_fault w' = write_fault w
         \<and> rng w' = next_draw st
         \<and> trace w' = trace w @ [OpenRead input_file, OpenWrite output_file]
         \<and> log w' = log w @ warnings st"
  using assms
  by (simp add: tokenize_records_def open_read_def open_write_def Let_def)

lemma tokenize_records_Inr:
  assumes "tokenize_records g draws input_file output_file cols tm w = Some (Inr tm', w')"
  shows "\<exists>fieldnames rs out st.
      files w input_file = Some (fieldnames # rs)
      \<and> input_file \<noteq> output_file
      \<and> open_fault w input_file = None \<and> read_fault w input_file = None
      \<and> write_fault w output_file = None
      \<and> tokenize_rows g draws cols fieldnames (dict_reader fieldnames rs)
           \<lparr>token_map = tm, next_draw = rng w, warnings = []\<rparr> [fieldnames]
         = Some (Inr (), out, st)
      \<and> tm' = token_map st"
proof -
  note defs = tokenize_records_def open_read_def open_write_def Let_def
  from assms have o: "open_fault w input_file = None"
    by (cases "open_fault w input_file") (auto simp: defs)
  from assms o obtain c where c: "files w input_file = Some c"
    by (cases "files w input_file") (auto simp: defs)
  from assms o c have wf: "write_fault w output_file = None"
    by (cases "write_fault w output_file") (auto simp: defs)
  have ne: "input_file \<noteq> output_file"
  proof
    assume "input_file = output_file"
    with assms o c wf show False by (auto simp: defs split: option.splits)
  qed
  from assms o c wf ne obtain fieldnames rs where c': "c = fieldnames # rs"
    by (cases c) (auto simp: defs split: option.splits)
  from assms o c c' wf ne obtain res out st where
    run: "tokenize_rows g draws cols fieldnames (dict_reader fieldnames rs)
           \<lparr>token_map = tm, next_draw = rng w, warnings = []\<rparr> [fieldnames]
         = Some (res, out, st)"
    by (auto simp: defs split: option.splits)
  from assms o c c' wf ne run have res: "res = Inr ()"
    by (cases res) (auto simp: defs split: option.splits)
  from assms o c c' wf ne run res have rf: "read_fault w input_file = None"
    by (cases "read_fault w input_file") (auto simp: defs)
  from assms o c c' wf ne run res rf have "tm' = token_map st"
    by (auto simp: defs)
  with o c c' wf ne run res rf show ?thesis by auto
qed

lemma tokenize_rows_error:
  "tokenize_rows g draws cols fns rows st out = Some (Inl e, out', st')
     \<Longrightarrow> e = FieldsNotInFieldnames"
proof (induction rows arbitrary: st out)
  case Nil
  then show ?case by simp
next
  case (Cons r rows)
  from Cons.prems obtain d st1 where
    row: "tokenize_row g draws cols (cells r) st = Some (d, st1)"
    by (auto split: option.splits)
  show ?case
  proof (cases "writerow fns (Row d (rest r))")
    case (Inl e')
    with Cons.prems row show ?thesis by (auto simp: writerow_def split: if_splits)
  next
    case (Inr line)
    with Cons.prems row Cons.IH show ?thesis by simp
  qed
qed

lemma tokenize_records_Inl:
  assumes "tokenize_records g draws input_file output_file cols tm w = Some (Inl e, w')"
  shows "open_read w input_file = Some e \<or> write_fault w output_file = Some e
      \<or> read_fault w input_file = Some e \<or> e = FieldnamesIsNone \<or> e = FieldsNotInFieldnames"
proof -
  note defs = tokenize_records_def open_read_def open_write_def Let_def
  show ?thesis
  proof (cases "open_read w input_file")
    case (Some e')
    with assms show ?thesis by (auto simp: defs split: option.splits)
  next
    case None
    then have o: "open_fault w input_file = None" and c: "files w input_file \<noteq> None"
      by (auto simp: open_read_def split: option.splits)
    show ?thesis
    proof (cases "write_fault w output_file")
      case (Some e')
      with assms o c show ?thesis by (auto simp: defs split: option.splits)
    next
      case wf: None
      show ?thesis
      proof (cases "input_file = output_file")
        case True
        with assms o c wf show ?thesis by (auto simp: defs split: option.splits)
      next
        case ne: False
        from c obtain rows where rows: "files w input_file = Some rows" by auto
        show ?thesis
        proof (cases rows)
          case Nil
          with assms o rows wf ne show ?thesis by (auto simp: defs split: option.splits)
        next
          case (Cons fieldnames rs)
          with assms o rows wf ne obtain res out st where
            run: "tokenize_rows g draws cols fieldnames (dict_reader fieldnames rs)
                \<lparr>token_map = tm, next_draw = rng w, warnings = []\<rparr> [fieldnames]
              = Some (res, out, st)"
            by (auto simp: defs split: option.splits)
          show ?thesis
          proof (cases res)
            case (Inl e')
            with assms o rows Cons wf ne run have "e' = e"
              by (auto simp: defs split: option.splits)
            with tokenize_rows_error [of g draws cols fieldnames _ _ _ e out st] run Inl
            show ?thesis by simp
          next
            case (Inr u)
            with assms o rows Cons wf ne run show ?thesis
              by (auto simp: defs split: option.splits)
          qed
        qed
      qed
    qed
  qed
qed

lemma write_token_map_success:
  "write_fault w token_map_file = None \<Longrightarrow>
     \<exists>w'. write_token_map token_map_file tm w = (Inr (), w')
       \<and> files w' = (files w)(token_map_file \<mapsto> save_token_map tm)
       \<and> open_fault w' = open_fault w
       \<and> read_fault w' = (read_fault w)(token_map_file := None)
       \<and> write_fault w' = write_fault w
       \<and> rng w' = rng w
       \<and> trace w' = trace w @ [OpenWrite token_map_file]
       \<and> log w' = log w"
  by (simp add: write_token_map_def open_write_def Let_def)

lemma write_token_map_failure:
  "write_fault w token_map_file = Some e \<Longrightarrow>
     write_token_map token_map_file tm w =
       (Inl e, w\<lparr>trace := trace w @ [OpenWrite token_map_file],
                 log := log w @ [ErrWritingTokenMap e]\<rparr>)"
  by (simp add: write_token_map_def open_write_def Let_def)

lemma tokenize_data_invalid_method:
  assumes "token_method \<noteq> ''uuid''" and "token_method \<noteq> ''sequential''"
  shows "\<exists>w'. tokenize_data draws input_file output_file cols token_method token_map_file w
           = Some (Inl (case load_error w token_map_file of
                          None \<Rightarrow> InvalidTokenMethod token_method
                        | Some e \<Rightarrow> e), w')
         \<and> files w' = files w \<and> rng w' = rng w
         \<and> trace w' = trace w @ load_trace w token_map_file
         \<and> log w' = log w @ load_log w token_map_file"
  using assms
  by (cases "load_error w token_map_file")
    (simp_all add: tokenize_data_def read_existing_token_map_eq select_generator_def)

lemma tokenize_data_success:
  assumes g: "select_generator token_method = Inr g"
    and ld: "load_error w token_map_file = None"
    and inp: "files w input_file = Some (fieldnames # rs)"
    and ne: "input_file \<noteq> output_file"
    and ok: "open_fault w input_file = None" "read_fault w input_file = None"
      "write_fault w output_file = None" "write_fault w token_map_file = None"
    and run: "tokenize_rows g draws cols fieldnames (dict_reader fieldnames rs)
        \<lparr>token_map = loaded_map w token_map_file, next_draw = rng w, warnings = []\<rparr>
        [fieldnames] = Some (Inr (), out, st)"
  shows "\<exists>w'. tokenize_data draws input_file output_file cols token_method token_map_file w
           = Some (Inr (), w')
         \<and> files w' = (files w)(output_file \<mapsto> out,
                                  token_map_file \<mapsto> save_token_map (token_map st))
         \<and> open_fault w' = open_fault w
         \<and> read_fault w' = (read_fault w)(output_file := None, token_map_file := None)
         \<and> write_fault w' = write_fault w
         \<and> rng w' = next_draw st
         \<and> trace w' = trace w @ load_trace w token_map_file
             @ [OpenRead input_file, OpenWrite output_file, OpenWrite token_map_file]
         \<and> log w' = log w @ load_log w token_map_file @ warnings st"
proof -
  let ?w1 = "w\<lparr>trace := trace w @ load_trace w token_map_file,
        log := log w @ load_log w token_map_file\<rparr>"
  have l: "read_existing_token_map token_map_file w = (Inr (loaded_map w token_map_file), ?w1)"
    using ld by (simp add: read_existing_token_map_eq)
  from tokenize_records_success [of ?w1 input_file fieldnames rs output_file g draws cols
      "loaded_map w token_map_file" out st] inp ne ok run
  obtain w2 where
    r: "tokenize_records g draws input_file output_file cols (loaded_map w token_map_file) ?w1
           = Some (Inr (token_map st), w2)"
    and w2: "files w2 = (files w)(output_file \<mapsto> out)"
      "open_fault w2 = open_fault w"
      "read_fault w2 = (read_fault w)(output_file := None)"
      "write_fault w2 = write_fault w"
      "rng w2 = next_draw st"
      "trace w2 = trace w @ load_trace w token_map_file @ [OpenRead input_file, OpenWrite output_file]"
      "log w2 = log w @ load_log w token_map_file @ warnings st"
    by auto
  from ok(4) w2(4) have "write_fault w2 token_map_file = None" by simp
  from write_token_map_success [OF this, of "token_map st"] obtain w' where
    s: "write_token_map token_map_file (token_map st) w2 = (Inr (), w')"
    and w': "files w' = (files w2)(token_map_file \<mapsto> save_token_map (token_map st))"
      "open_fault w' = open_fault w2"
      "read_fault w' = (read_fault w2)(token_map_file := None)"
      "write_fault w' = write_fault w2"
      "rng w' = rng w2"
      "trace w' = trace w2 @ [OpenWrite token_map_file]"
      "log w' = log w2"
    by auto
  from l g r s have "tokenize_data draws input_file output_file cols token_method token_map_file w
      = Some (Inr (), w')"
    by (simp add: tokenize_data_def)
  with w2 w' show ?thesis by simp
qed

lemma tokenize_data_Inr:
  assumes "tokenize_data draws input_file output_file cols token_method token_map_file w
      = Some (Inr u, w')"
  shows "\<exists>g fieldnames rs out st.
      select_generator token_method = Inr g
      \<and> load_error w token_map_file = None
      \<and> files w input_file = Some (fieldnames # rs)
      \<and> input_file \<noteq> output_file
      \<and> open_fault w input_file = None \<and> read_fault w input_file = None
      \<and> write_fault w output_file = None \<and> write_fault w token_map_file = None
      \<and> tokenize_rows g draws cols fieldnames (dict_reader fieldnames rs)
           \<lparr>token_map = loaded_map w token_map_file, next_draw = rng w, warnings = []\<rparr>
           [fieldnames] = Some (Inr (), out, st)
      \<and> files w' = (files w)(output_file \<mapsto> out,
                               token_map_file \<mapsto> save_token_map (token_map st))
      \<and> open_fault w' = open_fault w
      \<and> read_fault w' = (read_fault w)(output_file := None, token_map_file := None)
      \<and> write_fault w' = write_fault w
      \<and> log w' = log w @ load_log w token_map_file @ warnings st"
proof -
  let ?w1 = "w\<lparr>trace := trace w @ load_trace w token_map_file,
        log := log w @ load_log w token_map_file\<rparr>"
  from assms have ld: "load_error w token_map_file = None"
    by (cases "load_error w token_map_file")
      (auto simp: tokenize_data_def read_existing_token_map_eq)
  from assms ld obtain g where g: "select_generator token_method = Inr g"
    by (cases "select_generator token_method")
      (auto simp: tokenize_data_def read_existing_token_map_eq)
  from assms ld g obtain tm' w2 where
    r: "tokenize_records g draws input_file output_file cols (loaded_map w token_map_file) ?w1
           = Some (Inr tm', w2)"
    and s: "write_token_map token_map_file tm' w2 = (Inr u, w')"
    by (auto simp: tokenize_data_def read_existing_token_map_eq
        split: option.splits sum.splits prod.splits)
  from tokenize_records_Inr [OF r] obtain fieldnames rs out st where
    inp: "files w input_file = Some (fieldnames # rs)"
    and ne: "input_file \<noteq> output_file"
    and ok: "open_fault w input_file = None" "read_fault w input_file = None"
      "write_fault w output_file = None"
    and run: "tokenize_rows g draws cols fieldnames (dict_reader fieldnames rs)
           \<lparr>token_map = loaded_map w token_map_file, next_draw = rng w, warnings = []\<rparr>
           [fieldnames] = Some (Inr (), out, st)"
    and tm': "tm' = token_map st"
    by auto
  have wf: "write_fault w token_map_file = None"
  proof (cases "write_fault w token_map_file")
    case (Some e)
    from tokenize_records_success [of ?w1 input_file fieldnames rs output_file g draws cols
        "loaded_map w token_map_file" out st] inp ne ok run r
    have "write_fault w2 = write_fault w" by auto
    with Some write_token_map_failure [of w2 token_map_file e tm'] s show ?thesis by simp
  qed simp
  from tokenize_data_success [OF g ld inp ne ok wf run] assms
  show ?thesis using g ld inp ne ok wf run by auto
qed

lemma tokenize_data_write_failure:
  assumes g: "select_generator token_method = Inr g"
    and ld: "load_error w token_map_file = None"
    and inp: "files w input_file = Some (fieldnames # rs)"
    and ne: "input_file \<noteq> output_file"
    and ok: "open_fault w input_file = None" "read_fault w input_file = None"
      "write_fault w output_file = None"
    and wf: "write_fault w token_map_file = Some e"
    and run: "tokenize_rows g draws cols fieldnames (dict_reader fieldnames rs)
        \<lparr>token_map = loaded_map w token_map_file, next_draw = rng w, warnings = []\<rparr>
        [fieldnames] = Some (Inr (), out, st)"
  shows "\<exists>w'. tokenize_data draws input_file output_file cols token_method token_map_file w
           = Some (Inl e, w')
         \<and> files w' = (files w)(output_file \<mapsto> out)
         \<and> trace w' = trace w @ load_trace w token_map_file
             @ [OpenRead input_file, OpenWrite output_file, OpenWrite token_map_file]
         \<and> log w' = log w @ load_log w token_map_file @ warnings st @ [ErrWritingTokenMap e]"
proof -
  let ?w1 = "w\<lparr>trace := trace w @ load_trace w token_map_file,
        log := log w @ load_log w token_map_file\<rparr>"
  have l: "read_existing_token_map token_map_file w = (Inr (loaded_map w token_map_file), ?w1)"
    using ld by (simp add: read_existing_token_map_eq)
  from tokenize_records_success [of ?w1 input_file fieldnames rs output_file g draws cols
      "loaded_map w token_map_file" out st] inp ne ok run
  obtain w2 where
    r: "tokenize_records g draws input_file output_file cols (loaded_map w token_map_file) ?w1
           = Some (Inr (token_map st), w2)"
    and w2: "files w2 = (files w)(output_file \<mapsto> out)"
      "write_fault w2 = write_fault w"
      "trace w2 = trace w @ load_trace w token_map_file @ [OpenRead input_file, OpenWrite output_file]"
      "log w2 = log w @ load_log w token_map_file @ warnings st"
    by auto
  from wf w2(2) have "write_fault w2 token_map_file = Some e" by simp
  from write_token_map_failure [OF this, of "token_map st"] l g r
  have "tokenize_data draws input_file output_file cols token_method token_map_file w
      = Some (Inl e, w2\<lparr>trace := trace w2 @ [OpenWrite token_map_file],
                 log := log w2 @ [ErrWritingTokenMap e]\<rparr>)"
    by (simp add: tokenize_data_def)
  with w2 show ?thesis by simp
qed

lemma tokenize_data_row_failure:
  assumes g: "select_generator token_method = Inr g"
    and ld: "load_error w token_map_file = None"
    and inp: "files w input_file = Some (fieldnames # rs)"
    and ne: "input_file \<noteq> output_file"
    and ok: "open_fault w input_file = None" "write_fault w output_file = None"
    and run: "tokenize_rows g draws cols fieldnames (dict_reader fieldnames rs)
        \<lparr>token_map = loaded_map w token_map_file, next_draw = rng w, warnings = []\<rparr>
        [fieldnames] = Some (Inl e, out, st)"
  shows "\<exists>w'. tokenize_data draws input_file output_file cols token_method token_map_file w
           = Some (Inl e, w')
         \<and> files w' = (files w)(output_file \<mapsto> out)
         \<and> trace w' = trace w @ load_trace w token_map_file
             @ [OpenRead input_file, OpenWrite output_file]
         \<and> log w' = log w @ load_log w token_map_file @ warnings st
             @ [tokenize_error_msg input_file e]"
proof -
  let ?w1 = "w\<lparr>trace := trace w @ load_trace w token_map_file,
        log := log w @ load_log w token_map_file\<rparr>"
  have l: "read_existing_token_map token_map_file w = (Inr (loaded_map w token_map_file), ?w1)"
    using ld by (simp add: read_existing_token_map_eq)
  from inp ne ok run obtain w2 where
    r: "tokenize_records g draws input_file output_file cols (loaded_map w token_map_file) ?w1
           = Some (Inl e, w2)"
    and w2: "files w2 = (files w)(output_file \<mapsto> out)"
      "trace w2 = trace w @ load_trace w token_map_file @ [OpenRead input_file, OpenWrite output_file]"
      "log w2 = log w @ load_log w token_map_file @ warnings st @ [tokenize_error_msg input_file e]"
    by (simp add: tokenize_records_def open_read_def open_write_def Let_def)
  from l g r have "tokenize_data draws input_file output_file cols token_method token_map_file w
      = Some (Inl e, w2)"
    by (simp add: tokenize_data_def)
  with w2 show ?thesis by simp
qed

lemma tokenize_data_Inl:
  assumes "tokenize_data draws input_file output_file cols token_method token_map_file w
      = Some (Inl e, w')"
  shows "load_error w token_map_file = Some e
      \<or> e = InvalidTokenMethod token_method
      \<or> open_read w input_file = Some e
      \<or> write_fault w output_file = Some e
      \<or> read_fault w input_file = Some e
      \<or> e = FieldnamesIsNone \<or> e = FieldsNotInFieldnames
      \<or> write_fault w token_map_file = Some e"
proof (cases "load_error w token_map_file")
  case (Some e')
  with assms show ?thesis by (auto simp: tokenize_data_def read_existing_token_map_eq)
next
  case ld: None
  let ?w1 = "w\<lparr>trace := trace w @ load_trace w token_map_file,
        log := log w @ load_log w token_map_file\<rparr>"
  show ?thesis
  proof (cases "select_generator token_method")
    case (Inl e')
    with assms ld show ?thesis
      by (auto simp: tokenize_data_def read_existing_token_map_eq select_generator_def
          split: if_splits)
  next
    case (Inr g)
    from assms ld Inr obtain res w2 where
      r: "tokenize_records g draws input_file output_file cols (loaded_map w token_map_file) ?w1
           = Some (res, w2)"
      by (auto simp: tokenize_data_def read_existing_token_map_eq split: option.splits)
    show ?thesis
    proof (cases res)
      case (Inl e')
      with assms ld Inr r have "e' = e"
        by (auto simp: tokenize_data_def read_existing_token_map_eq)
      with r Inl have "tokenize_records g draws input_file output_file cols
          (loaded_map w token_map_file) ?w1 = Some (Inl e, w2)" by simp
      from tokenize_records_Inl [OF this]
      have "open_read ?w1 input_file = Some e \<or> write_fault w output_file = Some e
          \<or> read_fault w input_file = Some e \<or> e = FieldnamesIsNone
          \<or> e = FieldsNotInFieldnames" by simp
      moreover have "open_read ?w1 input_file = open_read w input_file"
        by (simp add: open_read_def split: option.splits)
      ultimately show ?thesis by auto
    next
      case (Inr tm')
      with assms ld \<open>select_generator token_method = Inr g\<close> r
      have s: "write_token_map token_map_file tm' w2 = (Inl e, w')"
        by (auto simp: tokenize_data_def read_existing_token_map_eq)
      from tokenize_records_Inr [OF r [unfolded Inr]] obtain fieldnames rs out st where
        a: "files w input_file = Some (fieldnames # rs)" "input_file \<noteq> output_file"
          "open_fault w input_file = None" "read_fault w input_file = None"
          "write_fault w output_file = None"
          "tokenize_rows g draws cols fieldnames (dict_reader fieldnames rs)
             \<lparr>token_map = loaded_map w token_map_file, next_draw = rng w, warnings = []\<rparr>
             [fieldnames] = Some (Inr (), out, st)"
        by auto
      from tokenize_records_success [of ?w1 input_file fieldnames rs output_file g draws cols
          "loaded_map w token_map_file" out st] a r
      have wf2: "write_fault w2 = write_fault w" by (auto simp: Inr)
      show ?thesis
      proof (cases "write_fault w token_map_file")
        case None
        with wf2 write_token_map_success [of w2 token_map_file tm'] s show ?thesis by auto
      next
        case (Some e')
        with wf2 write_token_map_failure [of w2 token_map_file e' tm'] s show ?thesis by auto
      qed
    qed
  qed
qed

lemma not_path_exists_load:
  assumes "\<not> path_exists w token_map_file"
  shows "load_error w token_map_file = None" and "loaded_map w token_map_file = []"
    and "load_log w token_map_file = []"
    and "load_trace w token_map_file = [PathExists token_map_file]"
  using assms
  by (simp_all add: path_exists_def load_error_def loaded_map_def load_log_def load_trace_def)

lemma writable_dict_reader_row:
  "writable fns (dict_reader_row fns raw) \<longleftrightarrow> length raw \<le> length fns"
proof -
  have "rest (dict_reader_row fns raw) = [] \<longleftrightarrow> length raw \<le> length fns"
    by (auto simp: dict_reader_row_def Let_def)
  then show ?thesis by (simp add: writable_def dict_reader_row_keys)
qed

lemma tokenize_rows_total:
  assumes t: "g = GenSequential \<or> inj draws"
    and rows: "\<forall>r\<in>set rs. length r \<le> length fieldnames"
  shows "\<exists>out st'. tokenize_rows g draws cols fieldnames (dict_reader fieldnames rs) st out0
      = Some (Inr (), out, st')"
proof -
  from tokenize_rows_returns [OF t, of cols fieldnames "dict_reader fieldnames rs" st out0]
  obtain res out st' where
    run: "tokenize_rows g draws cols fieldnames (dict_reader fieldnames rs) st out0
      = Some (res, out, st')"
    by auto
  from rows have "\<forall>r\<in>set (dict_reader fieldnames rs). writable fieldnames r"
    by (auto simp: dict_reader_def writable_dict_reader_row)
  from tokenize_rows_succeeds [OF run this] run show ?thesis by simp
qed

lemma tokenize_data_returns:
  assumes m: "token_method = ''uuid'' \<and> inj draws \<or> token_method = ''sequential''"
    and ld: "load_error w token_map_file = None"
    and inp: "files w input_file = Some (fieldnames # rs)"
    and ne: "input_file \<noteq> output_file"
    and ok: "open_fault w input_file = None" "read_fault w input_file = None"
      "write_fault w output_file = None" "write_fault w token_map_file = None"
    and rows: "\<forall>r\<in>set rs. length r \<le> length fieldnames"
  shows "\<exists>w'. tokenize_data draws input_file output_file cols token_method token_map_file w
      = Some (Inr (), w')"
proof -
  from m obtain g where g: "select_generator token_method = Inr g"
    and t: "g = GenSequential \<or> inj draws"
    by (auto simp: select_generator_def)
  let ?st = "\<lparr>token_map = loaded_map w token_map_file, next_draw = rng w, warnings = []\<rparr>"
  from tokenize_rows_total [OF t rows, of cols ?st "[fieldnames]"] obtain out st where
    "tokenize_rows g draws cols fieldnames (dict_reader fieldnames rs) ?st [fieldnames]
      = Some (Inr (), out, st)"
    by auto
  from tokenize_data_success [OF g ld inp ne ok this] show ?thesis by blast
qed

text \<open>
  C5, as the code has it. With a strategy name that is neither \<^verbatim>\<open>uuid\<close> nor \<^verbatim>\<open>sequential\<close>,
  \<^verbatim>\<open>tokenize_data\<close> fails after the mapping file has been looked for and, when the path
  exists, opened and read (lines 92-105 come before the check of lines 107-112): with the
  \<^verbatim>\<open>ValueError\<close> of line 112 when the load raises nothing, and with the exception of the load
  (line 105) otherwise. In both cases nothing is written and no other file is opened: the
  files are as before, the only calls are \<^verbatim>\<open>os.path.exists\<close> and the \<^verbatim>\<open>open\<close> of the mapping
  file, and the log holds the warnings of the malformed mapping rows and the error line
  of the load.
\<close>

theorem invalid_method_fails_after_load:
  "token_method \<noteq> ''uuid'' \<and> token_method \<noteq> ''sequential'' \<longrightarrow>
     (\<exists>w'. tokenize_data draws input_file output_file cols token_method token_map_file w
           = Some (Inl (case load_error w token_map_file of
                          None \<Rightarrow> InvalidTokenMethod token_method
                        | Some e \<Rightarrow> e), w')
         \<and> files w' = files w \<and> rng w' = rng w
         \<and> trace w' = trace w @ load_trace w token_map_file
         \<and> log w' = log w @ load_log w token_map_file)
     \<and> load_trace w token_map_file =
         (if files w token_map_file = None \<and> open_fault w token_map_file = None
          then [PathExists token_map_file]
          else [PathExists token_map_file, OpenRead token_map_file])
     \<and> (load_error w token_map_file = None \<longleftrightarrow>
          open_fault w token_map_file = None
          \<and> (files w token_map_file = None \<or> read_fault w token_map_file = None))"
proof (intro impI conjI)
  assume "token_method \<noteq> ''uuid'' \<and> token_method \<noteq> ''sequential''"
  then show "\<exists>w'. tokenize_data draws input_file output_file cols token_method token_map_file w
           = Some (Inl (case load_error w token_map_file of
                          None \<Rightarrow> InvalidTokenMethod token_method
                        | Some e \<Rightarrow> e), w')
         \<and> files w' = files w \<and> rng w' = rng w
         \<and> trace w' = trace w @ load_trace w token_map_file
         \<and> log w' = log w @ load_log w token_map_file"
    using tokenize_data_invalid_method by blast
  show "load_trace w token_map_file =
         (if files w token_map_file = None \<and> open_fault w token_map_file = None
          then [PathExists token_map_file]
          else [PathExists token_map_file, OpenRead token_map_file])"
    by (auto simp: load_trace_def path_exists_def)
  show "load_error w token_map_file = None \<longleftrightarrow>
          open_fault w token_map_file = None
          \<and> (files w token_map_file = None \<or> read_fault w token_map_file = None)"
    by (auto simp: load_error_def split: option.splits)
qed

theorem invalid_method_fails_after_load_witness:
  "''bogus'' \<noteq> ''uuid'' \<and> ''bogus'' \<noteq> ''sequential''
   \<and> (\<exists>w'. tokenize_data (\<lambda>i. []) ''in.csv'' ''out.csv'' [''ssn''] ''bogus'' ''map.csv''
          (disk [''in.csv'' \<mapsto> [[''ssn''], [''1'']]])
        = Some (Inl (InvalidTokenMethod ''bogus''), w')
        \<and> files w' = [''in.csv'' \<mapsto> [[''ssn''], [''1'']]]
        \<and> trace w' = [PathExists ''map.csv''] \<and> log w' = [])
   \<and> (\<exists>w'. tokenize_data (\<lambda>i. []) ''in.csv'' ''out.csv'' [''ssn''] ''bogus'' ''map.csv''
          ((disk [''in.csv'' \<mapsto> [[''ssn''], [''1'']], ''map.csv'' \<mapsto> [[''malformed'']]])
             \<lparr>read_fault := [''map.csv'' \<mapsto> OSError ''map.csv'']\<rparr>)
        = Some (Inl (OSError ''map.csv''), w')
        \<and> files w' = [''in.csv'' \<mapsto> [[''ssn''], [''1'']], ''map.csv'' \<mapsto> [[''malformed'']]]
        \<and> trace w' = [PathExists ''map.csv'', OpenRead ''map.csv'']
        \<and> log w' = [WarnMalformedRow [''malformed''],
                     ErrReadingExistingTokenMap (OSError ''map.csv'')])"
proof -
  let ?w = "disk [''in.csv'' \<mapsto> [[''ssn''], [''1'']]]"
  let ?v = "(disk [''in.csv'' \<mapsto> [[''ssn''], [''1'']], ''map.csv'' \<mapsto> [[''malformed'']]])
             \<lparr>read_fault := [''map.csv'' \<mapsto> OSError ''map.csv'']\<rparr>"
  have h: "''bogus'' \<noteq> ''uuid'' \<and> ''bogus'' \<noteq> ''sequential''" by simp
  from invalid_method_fails_after_load [of "''bogus''" "\<lambda>i. []" "''in.csv''" "''out.csv''"
      "[''ssn'']" "''map.csv''" ?w, THEN mp, OF h, THEN conjunct1]
  have a: "\<exists>w'. tokenize_data (\<lambda>i. []) ''in.csv'' ''out.csv'' [''ssn''] ''bogus'' ''map.csv'' ?w
        = Some (Inl (InvalidTokenMethod ''bogus''), w')
        \<and> files w' = [''in.csv'' \<mapsto> [[''ssn''], [''1'']]]
        \<and> trace w' = [PathExists ''map.csv''] \<and> log w' = []"
    by (auto simp: disk_def load_error_def load_trace_def load_log_def path_exists_def)
  from invalid_method_fails_after_load [of "''bogus''" "\<lambda>i. []" "''in.csv''" "''out.csv''"
      "[''ssn'']" "''map.csv''" ?v, THEN mp, OF h, THEN conjunct1]
  have b: "\<exists>w'. tokenize_data (\<lambda>i. []) ''in.csv'' ''out.csv'' [''ssn''] ''bogus'' ''map.csv'' ?v
        = Some (Inl (OSError ''map.csv''), w')
        \<and> files w' = [''in.csv'' \<mapsto> [[''ssn''], [''1'']], ''map.csv'' \<mapsto> [[''malformed'']]]
        \<and> trace w' = [PathExists ''map.csv'', OpenRead ''map.csv'']
        \<and> log w' = [WarnMalformedRow [''malformed''],
                     ErrReadingExistingTokenMap (OSError ''map.csv'')]"
    by (auto simp: disk_def load_error_def load_trace_def load_log_def path_exists_def)
  from h a b show ?thesis by blast
qed

text \<open>
  The claim as stated, "no file is read before the failure", fails when the mapping file
  exists: it has been opened and read when the \<^verbatim>\<open>ValueError\<close> is raised.
\<close>

theorem invalid_method_io_counterexample:
  "tokenize_data (\<lambda>i. []) ''in.csv'' ''out.csv'' [''ssn''] ''bogus'' ''map.csv''
      (disk [''map.csv'' \<mapsto> [[''t'', ''v''], [''malformed'']]])
     = Some (Inl (InvalidTokenMethod ''bogus''),
         (disk [''map.csv'' \<mapsto> [[''t'', ''v''], [''malformed'']]])
           \<lparr>trace := [PathExists ''map.csv'', OpenRead ''map.csv''],
             log := [WarnMalformedRow [''malformed'']]\<rparr>)"
  by (simp add: tokenize_data_def read_existing_token_map_eq select_generator_def disk_def
      load_error_def load_trace_def load_log_def path_exists_def)

text \<open>
  C6, as the code has it. When the mapping file does not exist, \<^verbatim>\<open>detokenize_data\<close> raises
  \<^verbatim>\<open>FileNotFoundError\<close> for it (lines 168-170), having opened nothing else and written
  nothing. \<^verbatim>\<open>tokenize_data\<close> starts from the empty mapping instead: lines 92-105 raise
  nothing, log nothing and open nothing. The run can still fail afterwards, and every
  failure is one of these: the \<^verbatim>\<open>ValueError\<close> of an unknown strategy, the exception of
  opening or reading the input file, of opening the output file, of a missing header or
  of a row longer than the header, or the exception of opening the mapping file for
  writing at line 146. A run whose record loop, started from the empty mapping, ends
  without an exception returns normally and saves the mapping of that loop when the
  mapping file can be opened for writing; and the run does return normally for a known
  strategy (no UUID drawn twice), a readable input file with a header, other than the
  output file, whose rows are not longer than the header, and an output file and a
  mapping file that can be opened for writing.
\<close>

theorem missing_mapping_file:
  "\<not> path_exists w token_map_file \<longrightarrow>
     detokenize_data input_file output_file token_map_file w =
       (Inl (FileNotFoundError token_map_file),
        w\<lparr>trace := trace w @ [OpenRead token_map_file],
          log := log w @ [ErrTokenMapNotFound token_map_file]\<rparr>)
     \<and> read_existing_token_map token_map_file w =
         (Inr [], w\<lparr>trace := trace w @ [PathExists token_map_file]\<rparr>)
     \<and> (\<forall>e w'. tokenize_data draws input_file output_file cols token_method token_map_file w
             = Some (Inl e, w')
           \<longrightarrow> e = InvalidTokenMethod token_method
               \<or> open_read w input_file = Some e
               \<or> write_fault w output_file = Some e
               \<or> read_fault w input_file = Some e
               \<or> e = FieldnamesIsNone \<or> e = FieldsNotInFieldnames
               \<or> write_fault w token_map_file = Some e)
     \<and> (\<forall>g fieldnames rs out st.
           select_generator token_method = Inr g
           \<and> files w input_file = Some (fieldnames # rs) \<and> input_file \<noteq> output_file
           \<and> open_fault w input_file = None \<and> read_fault w input_file = None
           \<and> write_fault w output_file = None \<and> write_fault w token_map_file = None
           \<and> tokenize_rows g draws cols fieldnames (dict_reader fieldnames rs)
                \<lparr>token_map = [], next_draw = rng w, warnings = []\<rparr> [fieldnames]
              = Some (Inr (), out, st)
           \<longrightarrow> (\<exists>w'. tokenize_data draws input_file output_file cols token_method
                        token_map_file w = Some (Inr (), w')
                  \<and> files w' = (files w)(output_file \<mapsto> out,
                        token_map_file \<mapsto> save_token_map (token_map st))))
     \<and> (\<forall>fieldnames rs.
           (token_method = ''uuid'' \<and> inj draws \<or> token_method = ''sequential'')
           \<and> files w input_file = Some (fieldnames # rs) \<and> input_file \<noteq> output_file
           \<and> open_fault w input_file = None \<and> read_fault w input_file = None
           \<and> write_fault w output_file = None \<and> write_fault w token_map_file = None
           \<and> (\<forall>r\<in>set rs. length r \<le> length fieldnames)
           \<longrightarrow> (\<exists>w'. tokenize_data draws input_file output_file cols token_method
                        token_map_file w = Some (Inr (), w')))"
proof
  assume none: "\<not> path_exists w token_map_file"
  note ld = not_path_exists_load [OF none]
  have d: "detokenize_data input_file output_file token_map_file w =
       (Inl (FileNotFoundError token_map_file),
        w\<lparr>trace := trace w @ [OpenRead token_map_file],
          log := log w @ [ErrTokenMapNotFound token_map_file]\<rparr>)"
    using none by (simp add: detokenize_data_def read_token_map_def open_read_def
        path_exists_def Let_def)
  have l: "read_existing_token_map token_map_file w =
         (Inr [], w\<lparr>trace := trace w @ [PathExists token_map_file]\<rparr>)"
    by (simp add: read_existing_token_map_eq ld)
  have f: "\<forall>e w'. tokenize_data draws input_file output_file cols token_method token_map_file w
             = Some (Inl e, w')
           \<longrightarrow> e = InvalidTokenMethod token_method
               \<or> open_read w input_file = Some e
               \<or> write_fault w output_file = Some e
               \<or> read_fault w input_file = Some e
               \<or> e = FieldnamesIsNone \<or> e = FieldsNotInFieldnames
               \<or> write_fault w token_map_file = Some e"
  proof (intro allI impI)
    fix e w'
    assume "tokenize_data draws input_file output_file cols token_method token_map_file w
             = Some (Inl e, w')"
    from tokenize_data_Inl [OF this] ld(1)
    show "e = InvalidTokenMethod token_method
               \<or> open_read w input_file = Some e
               \<or> write_fault w output_file = Some e
               \<or> read_fault w input_file = Some e
               \<or> e = FieldnamesIsNone \<or> e = FieldsNotInFieldnames
               \<or> write_fault w token_map_file = Some e"
      by simp
  qed
  have s: "\<forall>g fieldnames rs out st.
           select_generator token_method = Inr g
           \<and> files w input_file = Some (fieldnames # rs) \<and> input_file \<noteq> output_file
           \<and> open_fault w input_file = None \<and> read_fault w input_file = None
           \<and> write_fault w output_file = None \<and> write_fault w token_map_file = None
           \<and> tokenize_rows g draws cols fieldnames (dict_reader fieldnames rs)
                \<lparr>token_map = [], next_draw = rng w, warnings = []\<rparr> [fieldnames]
              = Some (Inr (), out, st)
           \<longrightarrow> (\<exists>w'. tokenize_data draws input_file output_file cols token_method
                        token_map_file w = Some (Inr (), w')
                  \<and> files w' = (files w)(output_file \<mapsto> out,
                        token_map_file \<mapsto> save_token_map (token_map st)))"
  proof (intro allI impI)
    fix g fieldnames rs out st
    assume a: "select_generator token_method = Inr g
           \<and> files w input_file = Some (fieldnames # rs) \<and> input_file \<noteq> output_file
           \<and> open_fault w input_file = None \<and> read_fault w input_file = None
           \<and> write_fault w output_file = None \<and> write_fault w token_map_file = None
           \<and> tokenize_rows g draws cols fieldnames (dict_reader fieldnames rs)
                \<lparr>token_map = [], next_draw = rng w, warnings = []\<rparr> [fieldnames]
              = Some (Inr (), out, st)"
    then have run: "tokenize_rows g draws cols fieldnames (dict_reader fieldnames rs)
        \<lparr>token_map = loaded_map w token_map_file, next_draw = rng w, warnings = []\<rparr>
        [fieldnames] = Some (Inr (), out, st)"
      by (simp add: ld)
    from a have g: "select_generator token_method = Inr g"
      and i: "files w input_file = Some (fieldnames # rs)" and ne: "input_file \<noteq> output_file"
      and ok: "open_fault w input_file = None" "read_fault w input_file = None"
        "write_fault w output_file = None" "write_fault w token_map_file = None"
      by simp_all
    from tokenize_data_success [OF g ld(1) i ne ok run]
    show "\<exists>w'. tokenize_data draws input_file output_file cols token_method
                        token_map_file w = Some (Inr (), w')
                  \<and> files w' = (files w)(output_file \<mapsto> out,
                        token_map_file \<mapsto> save_token_map (token_map st))"
      by blast
  qed
  have r: "\<forall>fieldnames rs.
           (token_method = ''uuid'' \<and> inj draws \<or> token_method = ''sequential'')
           \<and> files w input_file = Some (fieldnames # rs) \<and> input_file \<noteq> output_file
           \<and> open_fault w input_file = None \<and> read_fault w input_file = None
           \<and> write_fault w output_file = None \<and> write_fault w token_map_file = None
           \<and> (\<forall>r\<in>set rs. length r \<le> length fieldnames)
           \<longrightarrow> (\<exists>w'. tokenize_data draws input_file output_file cols token_method
                        token_map_file w = Some (Inr (), w'))"
    using tokenize_data_returns [OF _ ld(1)] by blast
  from d l f s r
  show "detokenize_data input_file output_file token_map_file w =
       (Inl (FileNotFoundError token_map_file),
        w\<lparr>trace := trace w @ [OpenRead token_map_file],
          log := log w @ [ErrTokenMapNotFound token_map_file]\<rparr>)
     \<and> read_existing_token_map token_map_file w =
         (Inr [], w\<lparr>trace := trace w @ [PathExists token_map_file]\<rparr>)
     \<and> (\<forall>e w'. tokenize_data draws input_file output_file cols token_method token_map_file w
             = Some (Inl e, w')
           \<longrightarrow> e = InvalidTokenMethod token_method
               \<or> open_read w input_file = Some e
               \<or> write_fault w output_file = Some e
               \<or> read_fault w input_file = Some e
               \<or> e = FieldnamesIsNone \<or> e = FieldsNotInFieldnames
               \<or> write_fault w token_map_file = Some e)
     \<and> (\<forall>g fieldnames rs out st.
           select_generator token_method = Inr g
           \<and> files w input_file = Some (fieldnames # rs) \<and> input_file \<noteq> output_file
           \<and> open_fault w input_file = None \<and> read_fault w input_file = None
           \<and> write_fault w output_file = None \<and> write_fault w token_map_file = None
           \<and> tokenize_rows g draws cols fieldnames (dict_reader fieldnames rs)
                \<lparr>token_map = [], next_draw = rng w, warnings = []\<rparr> [fieldnames]
              = Some (Inr (), out, st)
           \<longrightarrow> (\<exists>w'. tokenize_data draws input_file output_file cols token_method
                        token_map_file w = Some (Inr (), w')
                  \<and> files w' = (files w)(output_file \<mapsto> out,
                        token_map_file \<mapsto> save_token_map (token_map st))))
     \<and> (\<forall>fieldnames rs.
           (token_method = ''uuid'' \<and> inj draws \<or> token_method = ''sequential'')
           \<and> files w input_file = Some (fieldnames # rs) \<and> input_file \<noteq> output_file
           \<and> open_fault w input_file = None \<and> read_fault w input_file = None
           \<and> write_fault w output_file = None \<and> write_fault w token_map_file = None
           \<and> (\<forall>r\<in>set rs. length r \<le> length fieldnames)
           \<longrightarrow> (\<exists>w'. tokenize_data draws input_file output_file cols token_method
                        token_map_file w = Some (Inr (), w')))"
    by (intro conjI)
qed

theorem missing_mapping_file_witness:
  "\<not> path_exists (disk [''in.csv'' \<mapsto> [[''ssn''], [''111'']]]) ''map.csv''
   \<and> detokenize_data ''in.csv'' ''out.csv'' ''map.csv''
       (disk [''in.csv'' \<mapsto> [[''ssn''], [''111'']]])
     = (Inl (FileNotFoundError ''map.csv''),
        (disk [''in.csv'' \<mapsto> [[''ssn''], [''111'']]])
          \<lparr>trace := [OpenRead ''map.csv''], log := [ErrTokenMapNotFound ''map.csv'']\<rparr>)
   \<and> (\<exists>w'. tokenize_data (\<lambda>i. []) ''in.csv'' ''out.csv'' [''ssn''] ''sequential'' ''map.csv''
          (disk [''in.csv'' \<mapsto> [[''ssn''], [''111'']]])
        = Some (Inr (), w')
        \<and> files w' ''map.csv'' = Some [[''1'', ''111'']]
        \<and> files w' ''out.csv'' = Some [[''ssn''], [''1'']])"
proof -
  let ?w = "disk [''in.csv'' \<mapsto> [[''ssn''], [''111'']]]"
  have none: "\<not> path_exists ?w ''map.csv''" by (simp add: path_exists_def disk_def)
  note inst = missing_mapping_file [of ?w "''map.csv''" "''in.csv''" "''out.csv''" "\<lambda>i. []"
      "[''ssn'']" "''sequential''", THEN mp, OF none]
  have run: "tokenize_rows GenSequential (\<lambda>i. []) [''ssn''] [''ssn'']
      (dict_reader [''ssn''] [[''111'']])
      \<lparr>token_map = [], next_draw = 0, warnings = []\<rparr> [[''ssn'']]
    = Some (Inr (), [[''ssn''], [''1'']],
        \<lparr>token_map = [(''1'', Some ''111'')], next_draw = 0, warnings = []\<rparr>)"
    by code_simp
  have pre: "select_generator ''sequential'' = Inr GenSequential
      \<and> files ?w ''in.csv'' = Some ([''ssn''] # [[''111'']]) \<and> ''in.csv'' \<noteq> ''out.csv''
      \<and> open_fault ?w ''in.csv'' = None \<and> read_fault ?w ''in.csv'' = None
      \<and> write_fault ?w ''out.csv'' = None \<and> write_fault ?w ''map.csv'' = None
      \<and> tokenize_rows GenSequential (\<lambda>i. []) [''ssn''] [''ssn'']
          (dict_reader [''ssn''] [[''111'']])
          \<lparr>token_map = [], next_draw = rng ?w, warnings = []\<rparr> [[''ssn'']]
        = Some (Inr (), [[''ssn''], [''1'']],
            \<lparr>token_map = [(''1'', Some ''111'')], next_draw = 0, warnings = []\<rparr>)"
    using run by (simp add: select_generator_def disk_def)
  from inst [THEN conjunct2, THEN conjunct2, THEN conjunct2, THEN conjunct1, rule_format, OF pre]
  obtain w' where t: "tokenize_data (\<lambda>i. []) ''in.csv'' ''out.csv'' [''ssn''] ''sequential''
      ''map.csv'' ?w = Some (Inr (), w')"
    and f: "files w' = (files ?w)(''out.csv'' \<mapsto> [[''ssn''], [''1'']],
        ''map.csv'' \<mapsto> save_token_map (token_map
          \<lparr>token_map = [(''1'', Some ''111'')], next_draw = 0, warnings = []\<rparr>))"
    by blast
  from f have "files w' ''map.csv'' = Some [[''1'', ''111'']]"
    "files w' ''out.csv'' = Some [[''ssn''], [''1'']]"
    by (simp_all add: save_token_map_def)
  with t have e: "\<exists>w'. tokenize_data (\<lambda>i. []) ''in.csv'' ''out.csv'' [''ssn''] ''sequential''
      ''map.csv'' ?w = Some (Inr (), w')
        \<and> files w' ''map.csv'' = Some [[''1'', ''111'']]
        \<and> files w' ''out.csv'' = Some [[''ssn''], [''1'']]"
    by blast
  from inst [THEN conjunct1] have d: "detokenize_data ''in.csv'' ''out.csv'' ''map.csv'' ?w
     = (Inl (FileNotFoundError ''map.csv''),
        ?w\<lparr>trace := [OpenRead ''map.csv''], log := [ErrTokenMapNotFound ''map.csv'']\<rparr>)"
    by (simp add: disk_def)
  from none d e show ?thesis by (intro conjI)
qed

text \<open>
  The claim as stated, "tokenize does not fail", fails for a mapping file that does not
  exist because its directory does not: the load uses the empty mapping, the records are
  tokenized and written, and line 146 raises \<^verbatim>\<open>FileNotFoundError\<close> for the mapping file.
\<close>

theorem missing_mapping_directory_counterexample:
  "\<not> path_exists
       ((disk [''in.csv'' \<mapsto> [[''ssn''], [''111'']]])
          \<lparr>write_fault := [''maps/map.csv'' \<mapsto> FileNotFoundError ''maps/map.csv'']\<rparr>)
       ''maps/map.csv''
   \<and> (\<exists>w'. tokenize_data (\<lambda>i. []) ''in.csv'' ''out.csv'' [''ssn''] ''sequential''
          ''maps/map.csv''
          ((disk [''in.csv'' \<mapsto> [[''ssn''], [''111'']]])
             \<lparr>write_fault := [''maps/map.csv'' \<mapsto> FileNotFoundError ''maps/map.csv'']\<rparr>)
        = Some (Inl (FileNotFoundError ''maps/map.csv''), w')
        \<and> files w' ''out.csv'' = Some [[''ssn''], [''1'']]
        \<and> files w' ''maps/map.csv'' = None
        \<and> log w' = [ErrWritingTokenMap (FileNotFoundError ''maps/map.csv'')])"
proof -
  let ?w = "(disk [''in.csv'' \<mapsto> [[''ssn''], [''111'']]])
          \<lparr>write_fault := [''maps/map.csv'' \<mapsto> FileNotFoundError ''maps/map.csv'']\<rparr>"
  have none: "\<not> path_exists ?w ''maps/map.csv''" by (simp add: path_exists_def disk_def)
  note ld = not_path_exists_load [OF none]
  have run: "tokenize_rows GenSequential (\<lambda>i. []) [''ssn''] [''ssn'']
      (dict_reader [''ssn''] [[''111'']])
      \<lparr>token_map = [], next_draw = 0, warnings = []\<rparr> [[''ssn'']]
    = Some (Inr (), [[''ssn''], [''1'']],
        \<lparr>token_map = [(''1'', Some ''111'')], next_draw = 0, warnings = []\<rparr>)"
    by code_simp
  have g: "select_generator ''sequential'' = Inr GenSequential"
    by (simp add: select_generator_def)
  have i: "files ?w ''in.csv'' = Some ([''ssn''] # [[''111'']])" by (simp add: disk_def)
  have ne: "''in.csv'' \<noteq> ''out.csv''" by simp
  have ok: "open_fault ?w ''in.csv'' = None" "read_fault ?w ''in.csv'' = None"
    "write_fault ?w ''out.csv'' = None"
    by (simp_all add: disk_def)
  have wf: "write_fault ?w ''maps/map.csv'' = Some (FileNotFoundError ''maps/map.csv'')"
    by (simp add: disk_def)
  have rw: "rng ?w = 0" by (simp add: disk_def)
  have run': "tokenize_rows GenSequential (\<lambda>i. []) [''ssn''] [''ssn'']
      (dict_reader [''ssn''] [[''111'']])
      \<lparr>token_map = loaded_map ?w ''maps/map.csv'', next_draw = rng ?w, warnings = []\<rparr>
      [[''ssn'']]
    = Some (Inr (), [[''ssn''], [''1'']],
        \<lparr>token_map = [(''1'', Some ''111'')], next_draw = 0, warnings = []\<rparr>)"
    unfolding ld(2) rw by (rule run)
  from tokenize_data_write_failure [OF g ld(1) i ne ok wf run'] obtain w' where
    t: "tokenize_data (\<lambda>i. []) ''in.csv'' ''out.csv'' [''ssn''] ''sequential'' ''maps/map.csv''
        ?w = Some (Inl (FileNotFoundError ''maps/map.csv''), w')"
    and f: "files w' = (files ?w)(''out.csv'' \<mapsto> [[''ssn''], [''1'']])"
    and l: "log w' = log ?w @ load_log ?w ''maps/map.csv''
        @ warnings \<lparr>token_map = [(''1'', Some ''111'')], next_draw = 0, warnings = []\<rparr>
        @ [ErrWritingTokenMap (FileNotFoundError ''maps/map.csv'')]"
    by blast
  from f have f1: "files w' ''out.csv'' = Some [[''ssn''], [''1'']]"
    and f2: "files w' ''maps/map.csv'' = None"
    by (simp_all add: disk_def)
  have "log ?w = []" by (simp add: disk_def)
  with l have "log w' = [ErrWritingTokenMap (FileNotFoundError ''maps/map.csv'')]"
    by (simp add: ld(3))
  with none t f1 f2 show ?thesis by blast
qed

section \<open>Saving the mapping and loading it again\<close>

lemma dict_set_entries: "set (dict_set m k v) \<subseteq> insert (k, v) (set m)"
  by (induction m) (auto split: if_splits)

lemma load_token_map_values:
  "\<forall>e\<in>set tm. snd e \<noteq> None \<Longrightarrow> \<forall>e\<in>set (fst (load_token_map rows tm lg)). snd e \<noteq> None"
proof (induction rows arbitrary: tm lg)
  case Nil
  then show ?case by simp
next
  case (Cons r rows)
  show ?case
  proof (cases "length r = 2")
    case True
    have "\<forall>e\<in>set (dict_set tm (r ! 0) (Some (r ! 1))). snd e \<noteq> None"
      using Cons.prems dict_set_entries [of tm "r ! 0" "Some (r ! 1)"] by auto
    from Cons.IH [OF this] True show ?thesis by simp
  next
    case False
    with Cons.IH [OF Cons.prems] show ?thesis by simp
  qed
qed

lemma loaded_map_values: "\<forall>e\<in>set (loaded_map w token_map_file). snd e \<noteq> None"
proof (cases "files w token_map_file")
  case None
  then show ?thesis by (simp add: loaded_map_def)
next
  case (Some rows)
  have "\<forall>e\<in>set (fst (load_token_map rows [] [])). snd e \<noteq> None"
    by (rule load_token_map_values) simp
  with Some show ?thesis by (simp add: loaded_map_def)
qed

lemma loaded_map_distinct: "distinct (dict_keys (loaded_map w token_map_file))"
proof (cases "files w token_map_file")
  case None
  then show ?thesis by (simp add: loaded_map_def dict_keys_def)
next
  case (Some rows)
  have "distinct (dict_keys (fst (load_token_map rows [] [])))"
    by (rule load_token_map_distinct_keys) (simp add: dict_keys_def)
  with Some show ?thesis by (simp add: loaded_map_def)
qed

lemma load_save_acc:
  "distinct (dict_keys m) \<Longrightarrow> set (dict_keys m) \<inter> set (dict_keys d0) = {}
     \<Longrightarrow> load_token_map (save_token_map m) d0 lg = (d0 @ reloaded m, lg)"
proof (induction m arbitrary: d0)
  case Nil
  show ?case by (simp add: save_token_map_def reloaded_def)
next
  case (Cons e m)
  obtain t v where e: "e = (t, v)" by (cases e)
  from Cons.prems e have fresh: "\<not> dict_contains d0 t"
    by (auto simp: dict_contains_def dict_keys_def)
  have step: "dict_set d0 t (Some (csv_field v)) = d0 @ [(t, Some (csv_field v))]"
    by (rule dict_set_new [OF fresh])
  from Cons.prems e have d: "distinct (dict_keys m)"
    and i: "set (dict_keys m) \<inter> set (dict_keys (d0 @ [(t, Some (csv_field v))])) = {}"
    by (auto simp: dict_keys_def)
  from Cons.IH [OF d i] e step show ?case
    by (simp add: save_token_map_def reloaded_def)
qed

lemma load_save:
  "distinct (dict_keys m) \<Longrightarrow> fst (load_token_map (save_token_map m) [] []) = reloaded m"
  using load_save_acc [of m "[]" "[]"] by (simp add: dict_keys_def)

lemma reloaded_strings: "\<forall>e\<in>set m. snd e \<noteq> None \<Longrightarrow> reloaded m = m"
  by (induction m) (auto simp: reloaded_def)

lemma reloaded_append: "reloaded (a @ b) = reloaded a @ reloaded b"
  by (simp add: reloaded_def)

lemma tokenize_value_origin:
  "tokenize_value g draws v st = Some (t, st')
     \<Longrightarrow> snd ` set (token_map st') \<subseteq> insert v (snd ` set (token_map st))"
  by (drule tokenize_value_cases) auto

lemma tokenize_row_origin:
  "tokenize_row g draws cols r st = Some (r', st') \<Longrightarrow> distinct cols
     \<Longrightarrow> snd ` set (token_map st')
           \<subseteq> snd ` set (token_map st) \<union> {v. \<exists>c\<in>set cols. dict_get r c = Some v}"
proof (induction cols arbitrary: r st)
  case Nil
  then show ?case by simp
next
  case (Cons c cols)
  from Cons.prems(2) have d: "distinct cols" and n: "c \<notin> set cols" by simp_all
  show ?case
  proof (cases "dict_get r c")
    case None
    with Cons.prems(1)
    have "tokenize_row g draws cols r (st\<lparr>warnings := warnings st @ [WarnColumnNotFound c]\<rparr>)
        = Some (r', st')" by simp
    from Cons.IH [OF this d] show ?thesis by auto
  next
    case (Some v)
    with Cons.prems(1) obtain t st1 where
      tv: "tokenize_value g draws v st = Some (t, st1)"
      and rest: "tokenize_row g draws cols (dict_set r c (Some t)) st1 = Some (r', st')"
      by (auto split: option.splits)
    have "{v. \<exists>c'\<in>set cols. dict_get (dict_set r c (Some t)) c' = Some v}
        = {v. \<exists>c'\<in>set cols. dict_get r c' = Some v}"
      using n by (auto simp: dict_get_set)
    with Cons.IH [OF rest d] tokenize_value_origin [OF tv] Some show ?thesis by auto
  qed
qed

lemma tokenize_rows_origin:
  "tokenize_rows g draws cols fns rows st out = Some (res, out', st') \<Longrightarrow> distinct cols
     \<Longrightarrow> snd ` set (token_map st')
           \<subseteq> snd ` set (token_map st)
             \<union> {v. \<exists>r\<in>set rows. \<exists>c\<in>set cols. dict_get (cells r) c = Some v}"
proof (induction rows arbitrary: st out)
  case Nil
  then show ?case by simp
next
  case (Cons r rows)
  from Cons.prems obtain d st1 where
    row: "tokenize_row g draws cols (cells r) st = Some (d, st1)"
    by (auto split: option.splits)
  note o1 = tokenize_row_origin [OF row Cons.prems(2)]
  show ?case
  proof (cases "writerow fns (Row d (rest r))")
    case (Inl e)
    with Cons.prems row have "st' = st1" by simp
    with o1 show ?thesis by auto
  next
    case (Inr line)
    with Cons.prems row
    have "tokenize_rows g draws cols fns rows st1 (out @ [line]) = Some (res, out', st')"
      by simp
    from Cons.IH [OF this Cons.prems(2)] o1 show ?thesis by auto
  qed
qed

lemma tokenize_rows_has_token:
  "tokenize_rows g draws cols fns rows st out = Some (Inr (), out', st') \<Longrightarrow> distinct cols
     \<Longrightarrow> r \<in> set rows \<Longrightarrow> k \<in> set cols \<Longrightarrow> dict_get (cells r) k = Some v
     \<Longrightarrow> \<exists>t. find_token (token_map st') v = Some t"
proof (induction rows arbitrary: st out)
  case Nil
  then show ?case by simp
next
  case (Cons r0 rows)
  from Cons.prems obtain d st1 where
    row: "tokenize_row g draws cols (cells r0) st = Some (d, st1)"
    by (auto split: option.splits)
  from Cons.prems row obtain line where
    rest: "tokenize_rows g draws cols fns rows st1 (out @ [line]) = Some (Inr (), out', st')"
    by (auto split: sum.splits)
  show ?case
  proof (cases "r = r0")
    case True
    with tokenize_row_token [OF row Cons.prems(2) Cons.prems(4)] Cons.prems(5)
    obtain t where "find_token (token_map st1) v = Some t" by auto
    with extends_fresh_find [OF tokenize_rows_extends [OF rest]] show ?thesis by blast
  next
    case False
    with Cons.prems have "r \<in> set rows" by simp
    from Cons.IH [OF rest Cons.prems(2) this Cons.prems(4) Cons.prems(5)] show ?thesis .
  qed
qed

text \<open>
  C10. A run of \<^verbatim>\<open>tokenize_data\<close> that returns normally has written, as the mapping file,
  the final mapping \<open>token_map st\<close> of its record loop, the loop that wrote the output
  file. That mapping is the mapping loaded at the start, in its order and unchanged,
  followed by the entries \<open>new\<close> created during the run, whose tokens are none of the
  loaded ones and whose values are none of the loaded ones. So every loaded entry is a
  row of the saved file, and loading the saved file again gives the loaded mapping
  followed by the new entries. With pairwise different configured columns the new
  entries are those the records asked for: the value of a new entry is a value of a
  configured column of a record, and every such value has its token in the saved file.
\<close>

theorem saved_mapping_extends_loaded:
  "tokenize_data draws input_file output_file cols token_method token_map_file w
      = Some (Inr (), w') \<longrightarrow>
     (\<exists>g fieldnames rs out st new.
        select_generator token_method = Inr g
        \<and> files w input_file = Some (fieldnames # rs)
        \<and> tokenize_rows g draws cols fieldnames (dict_reader fieldnames rs)
             \<lparr>token_map = loaded_map w token_map_file, next_draw = rng w, warnings = []\<rparr>
             [fieldnames] = Some (Inr (), out, st)
        \<and> token_map st = loaded_map w token_map_file @ new
        \<and> files w' token_map_file = Some (save_token_map (token_map st))
        \<and> (output_file \<noteq> token_map_file \<longrightarrow> files w' output_file = Some out)
        \<and> fst (load_token_map (the (files w' token_map_file)) [] [])
            = loaded_map w token_map_file @ reloaded new
        \<and> set (dict_keys new) \<inter> set (dict_keys (loaded_map w token_map_file)) = {}
        \<and> distinct (dict_keys new)
        \<and> set (map snd new) \<inter> set (map snd (loaded_map w token_map_file)) = {}
        \<and> distinct (map snd new)
        \<and> (distinct cols \<longrightarrow>
             (\<forall>e\<in>set new. \<exists>r\<in>set (dict_reader fieldnames rs). \<exists>c\<in>set cols.
                 dict_get (cells r) c = Some (snd e))
             \<and> (\<forall>r\<in>set (dict_reader fieldnames rs). \<forall>c\<in>set cols. \<forall>v.
                 dict_get (cells r) c = Some v \<longrightarrow>
                   (\<exists>t. find_token (token_map st) v = Some t
                      \<and> [t, csv_field v] \<in> set (the (files w' token_map_file))))))
     \<and> (\<forall>t v. dict_get (loaded_map w token_map_file) t = Some v \<longrightarrow>
           (\<exists>s. v = Some s \<and> [t, s] \<in> set (the (files w' token_map_file)))
           \<and> dict_get (fst (load_token_map (the (files w' token_map_file)) [] [])) t = Some v)"
proof
  assume run: "tokenize_data draws input_file output_file cols token_method token_map_file w
      = Some (Inr (), w')"
  let ?l = "loaded_map w token_map_file"
  from tokenize_data_Inr [OF run] obtain g fieldnames rs out st where
    g: "select_generator token_method = Inr g"
    and inp: "files w input_file = Some (fieldnames # rs)"
    and rows: "tokenize_rows g draws cols fieldnames (dict_reader fieldnames rs)
           \<lparr>token_map = ?l, next_draw = rng w, warnings = []\<rparr> [fieldnames]
         = Some (Inr (), out, st)"
    and f: "files w' = (files w)(output_file \<mapsto> out,
                               token_map_file \<mapsto> save_token_map (token_map st))"
    by blast
  from tokenize_rows_extends [OF rows] obtain new where
    tm: "token_map st = ?l @ new"
    and dn: "distinct (dict_keys new)"
    and disj: "set (dict_keys new) \<inter> set (dict_keys ?l) = {}"
    and dv: "distinct (map snd new)"
    and disjv: "set (map snd new) \<inter> set (map snd ?l) = {}"
    by (auto simp: extends_fresh_def)
  from f have saved: "files w' token_map_file = Some (save_token_map (token_map st))"
    by simp
  from f have outf: "output_file \<noteq> token_map_file \<longrightarrow> files w' output_file = Some out"
    by simp
  from dn disj loaded_map_distinct [of w token_map_file]
  have "distinct (dict_keys (?l @ new))"
    by (auto simp: dict_keys_def)
  from load_save [OF this] saved tm
  have again: "fst (load_token_map (the (files w' token_map_file)) [] []) = ?l @ reloaded new"
    by (simp add: reloaded_append reloaded_strings [OF loaded_map_values])
  have asked: "(\<forall>e\<in>set new. \<exists>r\<in>set (dict_reader fieldnames rs). \<exists>c\<in>set cols.
                 dict_get (cells r) c = Some (snd e))
             \<and> (\<forall>r\<in>set (dict_reader fieldnames rs). \<forall>c\<in>set cols. \<forall>v.
                 dict_get (cells r) c = Some v \<longrightarrow>
                   (\<exists>t. find_token (token_map st) v = Some t
                      \<and> [t, csv_field v] \<in> set (the (files w' token_map_file))))"
    if d: "distinct cols"
  proof (intro conjI ballI allI impI)
    fix e assume e: "e \<in> set new"
    with tm have "snd e \<in> snd ` set (token_map st)" by auto
    moreover from e disjv have "snd e \<notin> snd ` set ?l" by auto
    ultimately show "\<exists>r\<in>set (dict_reader fieldnames rs). \<exists>c\<in>set cols.
        dict_get (cells r) c = Some (snd e)"
      using tokenize_rows_origin [OF rows d] by auto
  next
    fix r c v
    assume r: "r \<in> set (dict_reader fieldnames rs)" and c: "c \<in> set cols"
      and v: "dict_get (cells r) c = Some v"
    from tokenize_rows_has_token [OF rows d r c v] obtain t where
      t: "find_token (token_map st) v = Some t" ..
    from find_token_Some_mem [OF t] have "[t, csv_field v] \<in> set (save_token_map (token_map st))"
      by (force simp: save_token_map_def)
    with t saved show "\<exists>t. find_token (token_map st) v = Some t
        \<and> [t, csv_field v] \<in> set (the (files w' token_map_file))"
      by simp
  qed
  have entries: "(\<exists>s. v = Some s \<and> [t, s] \<in> set (the (files w' token_map_file)))
      \<and> dict_get (fst (load_token_map (the (files w' token_map_file)) [] [])) t = Some v"
    if l: "dict_get ?l t = Some v" for t v
  proof
    from l have m: "(t, v) \<in> set ?l" by (simp add: dict_get_def map_of_SomeD)
    with loaded_map_values [of w token_map_file] obtain s where s: "v = Some s" by auto
    from m have "[t, csv_field v] \<in> set (save_token_map (?l @ new))"
      by (force simp: save_token_map_def)
    with s saved tm show "\<exists>s. v = Some s \<and> [t, s] \<in> set (the (files w' token_map_file))"
      by simp
    from l show "dict_get (fst (load_token_map (the (files w' token_map_file)) [] [])) t = Some v"
      unfolding again by (simp add: dict_get_def)
  qed
  from g inp rows tm saved outf again disj dn disjv dv asked
  have first: "\<exists>g fieldnames rs out st new.
        select_generator token_method = Inr g
        \<and> files w input_file = Some (fieldnames # rs)
        \<and> tokenize_rows g draws cols fieldnames (dict_reader fieldnames rs)
             \<lparr>token_map = loaded_map w token_map_file, next_draw = rng w, warnings = []\<rparr>
             [fieldnames] = Some (Inr (), out, st)
        \<and> token_map st = loaded_map w token_map_file @ new
        \<and> files w' token_map_file = Some (save_token_map (token_map st))
        \<and> (output_file \<noteq> token_map_file \<longrightarrow> files w' output_file = Some out)
        \<and> fst (load_token_map (the (files w' token_map_file)) [] [])
            = loaded_map w token_map_file @ reloaded new
        \<and> set (dict_keys new) \<inter> set (dict_keys (loaded_map w token_map_file)) = {}
        \<and> distinct (dict_keys new)
        \<and> set (map snd new) \<inter> set (map snd (loaded_map w token_map_file)) = {}
        \<and> distinct (map snd new)
        \<and> (distinct cols \<longrightarrow>
             (\<forall>e\<in>set new. \<exists>r\<in>set (dict_reader fieldnames rs). \<exists>c\<in>set cols.
                 dict_get (cells r) c = Some (snd e))
             \<and> (\<forall>r\<in>set (dict_reader fieldnames rs). \<forall>c\<in>set cols. \<forall>v.
                 dict_get (cells r) c = Some v \<longrightarrow>
                   (\<exists>t. find_token (token_map st) v = Some t
                      \<and> [t, csv_field v] \<in> set (the (files w' token_map_file)))))"
    by (intro exI [of _ g] exI [of _ fieldnames] exI [of _ rs] exI [of _ out] exI [of _ st]
        exI [of _ new] conjI impI) simp_all
  from first entries
  show "(\<exists>g fieldnames rs out st new.
        select_generator token_method = Inr g
        \<and> files w input_file = Some (fieldnames # rs)
        \<and> tokenize_rows g draws cols fieldnames (dict_reader fieldnames rs)
             \<lparr>token_map = loaded_map w token_map_file, next_draw = rng w, warnings = []\<rparr>
             [fieldnames] = Some (Inr (), out, st)
        \<and> token_map st = loaded_map w token_map_file @ new
        \<and> files w' token_map_file = Some (save_token_map (token_map st))
        \<and> (output_file \<noteq> token_map_file \<longrightarrow> files w' output_file = Some out)
        \<and> fst (load_token_map (the (files w' token_map_file)) [] [])
            = loaded_map w token_map_file @ reloaded new
        \<and> set (dict_keys new) \<inter> set (dict_keys (loaded_map w token_map_file)) = {}
        \<and> distinct (dict_keys new)
        \<and> set (map snd new) \<inter> set (map snd (loaded_map w token_map_file)) = {}
        \<and> distinct (map snd new)
        \<and> (distinct cols \<longrightarrow>
             (\<forall>e\<in>set new. \<exists>r\<in>set (dict_reader fieldnames rs). \<exists>c\<in>set cols.
                 dict_get (cells r) c = Some (snd e))
             \<and> (\<forall>r\<in>set (dict_reader fieldnames rs). \<forall>c\<in>set cols. \<forall>v.
                 dict_get (cells r) c = Some v \<longrightarrow>
                   (\<exists>t. find_token (token_map st) v = Some t
                      \<and> [t, csv_field v] \<in> set (the (files w' token_map_file))))))
     \<and> (\<forall>t v. dict_get (loaded_map w token_map_file) t = Some v \<longrightarrow>
           (\<exists>s. v = Some s \<and> [t, s] \<in> set (the (files w' token_map_file)))
           \<and> dict_get (fst (load_token_map (the (files w' token_map_file)) [] [])) t = Some v)"
    by blast
qed

theorem saved_mapping_extends_loaded_witness:
  "\<exists>w'. tokenize_data (\<lambda>i. []) ''in.csv'' ''out.csv'' [''ssn''] ''sequential'' ''map.csv''
        (disk [''in.csv'' \<mapsto> [[''ssn''], [''111'']], ''map.csv'' \<mapsto> [[''t9'', ''zzz'']]])
      = Some (Inr (), w')
    \<and> dict_get (loaded_map
          (disk [''in.csv'' \<mapsto> [[''ssn''], [''111'']], ''map.csv'' \<mapsto> [[''t9'', ''zzz'']]])
          ''map.csv'') ''t9'' = Some (Some ''zzz'')
    \<and> files w' ''map.csv'' = Some [[''t9'', ''zzz''], [''1'', ''111'']]
    \<and> files w' ''out.csv'' = Some [[''ssn''], [''1'']]
    \<and> [''t9'', ''zzz''] \<in> set (the (files w' ''map.csv''))
    \<and> dict_get (fst (load_token_map (the (files w' ''map.csv'')) [] [])) ''t9''
        = Some (Some ''zzz'')"
proof -
  let ?w = "disk [''in.csv'' \<mapsto> [[''ssn''], [''111'']], ''map.csv'' \<mapsto> [[''t9'', ''zzz'']]]"
  let ?st = "\<lparr>token_map = [(''t9'', Some ''zzz''), (''1'', Some ''111'')], next_draw = 0,
          warnings = []\<rparr>"
  have l: "loaded_map ?w ''map.csv'' = [(''t9'', Some ''zzz'')]"
    by (simp add: loaded_map_def disk_def)
  have ld: "load_error ?w ''map.csv'' = None" by (simp add: load_error_def disk_def)
  have rw: "rng ?w = 0" by (simp add: disk_def)
  have g: "select_generator ''sequential'' = Inr GenSequential"
    by (simp add: select_generator_def)
  have i: "files ?w ''in.csv'' = Some ([''ssn''] # [[''111'']])" by (simp add: disk_def)
  have ne: "''in.csv'' \<noteq> ''out.csv''" by simp
  have ok: "open_fault ?w ''in.csv'' = None" "read_fault ?w ''in.csv'' = None"
    "write_fault ?w ''out.csv'' = None" "write_fault ?w ''map.csv'' = None"
    by (simp_all add: disk_def)
  have run0: "tokenize_rows GenSequential (\<lambda>i. []) [''ssn''] [''ssn'']
      (dict_reader [''ssn''] [[''111'']])
      \<lparr>token_map = [(''t9'', Some ''zzz'')], next_draw = 0, warnings = []\<rparr> [[''ssn'']]
    = Some (Inr (), [[''ssn''], [''1'']], ?st)"
    by code_simp
  have run: "tokenize_rows GenSequential (\<lambda>i. []) [''ssn''] [''ssn'']
      (dict_reader [''ssn''] [[''111'']])
      \<lparr>token_map = loaded_map ?w ''map.csv'', next_draw = rng ?w, warnings = []\<rparr> [[''ssn'']]
    = Some (Inr (), [[''ssn''], [''1'']], ?st)"
    unfolding l rw by (rule run0)
  from tokenize_data_success [OF g ld i ne ok run] obtain w' where
    t: "tokenize_data (\<lambda>i. []) ''in.csv'' ''out.csv'' [''ssn''] ''sequential'' ''map.csv'' ?w
      = Some (Inr (), w')"
    by blast
  note inst = saved_mapping_extends_loaded [of "\<lambda>i. []" "''in.csv''" "''out.csv''" "[''ssn'']"
      "''sequential''" "''map.csv''" ?w w', THEN mp, OF t]
  from inst [THEN conjunct1] obtain g' fieldnames rs out st where
    g': "select_generator ''sequential'' = Inr g'"
    and i': "files ?w ''in.csv'' = Some (fieldnames # rs)"
    and run': "tokenize_rows g' (\<lambda>i. []) [''ssn''] fieldnames (dict_reader fieldnames rs)
        \<lparr>token_map = loaded_map ?w ''map.csv'', next_draw = rng ?w, warnings = []\<rparr>
        [fieldnames] = Some (Inr (), out, st)"
    and saved: "files w' ''map.csv'' = Some (save_token_map (token_map st))"
    and outf: "''out.csv'' \<noteq> ''map.csv'' \<longrightarrow> files w' ''out.csv'' = Some out"
    by blast
  from g g' have "g' = GenSequential" by simp
  moreover from i i' have "fieldnames = [''ssn'']" "rs = [[''111'']]" by simp_all
  ultimately have "Some (Inr (), out, st) = Some (Inr (), [[''ssn''], [''1'']], ?st)"
    using run run' by simp
  then have o: "out = [[''ssn''], [''1'']]" and st: "st = ?st" by simp_all
  from saved st have s: "files w' ''map.csv'' = Some [[''t9'', ''zzz''], [''1'', ''111'']]"
    by (simp add: save_token_map_def)
  from outf o have fo: "files w' ''out.csv'' = Some [[''ssn''], [''1'']]" by simp
  have d: "dict_get (loaded_map ?w ''map.csv'') ''t9'' = Some (Some ''zzz'')"
    unfolding l by (simp add: dict_get_def)
  from inst [THEN conjunct2, rule_format, OF d]
  have c: "[''t9'', ''zzz''] \<in> set (the (files w' ''map.csv''))"
    "dict_get (fst (load_token_map (the (files w' ''map.csv'')) [] [])) ''t9''
        = Some (Some ''zzz'')"
    by auto
  from t d s fo c show ?thesis by blast
qed

section \<open>One value, one token\<close>

lemma occurrence_token:
  assumes run: "tokenize_rows g draws cols fns rows st out = Some (Inr (), out', st')"
    and d: "distinct cols"
    and i: "i < length rows" and p: "p < length fns" and c: "fns ! p \<in> set cols"
    and v: "dict_get (cells (rows ! i)) (fns ! p) = Some v"
  shows "\<exists>t. find_token (token_map st') v = Some t \<and> out' ! (length out + i) ! p = t"
proof -
  from i have "rows ! i \<in> set rows" by simp
  from tokenize_rows_has_token [OF run d this c v] obtain t where
    t: "find_token (token_map st') v = Some t" ..
  from tokenize_rows_output [OF run d]
  have "out' = out @ map (\<lambda>r. tokenized_line (token_map st') cols fns (cells r)) rows"
    by simp
  with i have "out' ! (length out + i) = tokenized_line (token_map st') cols fns (cells (rows ! i))"
    by simp
  with p c v t have "out' ! (length out + i) ! p = t"
    by (simp add: tokenized_line_def tokenized_cell_def)
  with t show ?thesis by simp
qed

lemma find_token_reloaded:
  assumes "v \<noteq> None" and "v = Some [] \<longrightarrow> (\<forall>e\<in>set m. snd e \<noteq> None)"
  shows "find_token (reloaded m) v = find_token m v"
  using assms
proof (induction m)
  case Nil
  show ?case by (simp add: reloaded_def)
next
  case (Cons e m)
  obtain t x where e: "e = (t, x)" by (cases e)
  from Cons.prems have "v = Some [] \<longrightarrow> (\<forall>e\<in>set m. snd e \<noteq> None)" by simp
  from Cons.IH [OF Cons.prems(1) this]
  have ih: "find_token (reloaded m) v = find_token m v" .
  have "Some (csv_field x) = v \<longleftrightarrow> x = v"
  proof (cases x)
    case None
    with Cons.prems e show ?thesis by auto
  next
    case (Some s)
    then show ?thesis by auto
  qed
  with ih e show ?case by (simp add: reloaded_def)
qed

text \<open>
  C3, as the code has it. In a pass that ends normally (pairwise different configured
  columns), the field written for an occurrence of a value \<open>v\<close> in a configured column is
  the first token of \<open>v\<close> in the final mapping: every occurrence of \<open>v\<close>, in any row and any
  configured column, is replaced by the same token. A later pass that starts from the
  saved mapping, with any strategy, columns and input, replaces \<open>v\<close> by that token again
  when \<open>v\<close> is a string that is not empty, and also when \<open>v\<close> is the empty string and no
  missing value (\<^verbatim>\<open>None\<close>, the cell of a row shorter than the header) is a value of the
  saved mapping. The mapping file stores \<^verbatim>\<open>None\<close> as the empty string, which is why the
  two cases left out differ.
\<close>

theorem same_value_same_token:
  assumes run: "tokenize_rows g draws cols fns rows st out = Some (Inr (), out', st')"
    and d: "distinct cols"
    and i: "i < length rows" and p: "p < length fns" and c: "fns ! p \<in> set cols"
    and v: "dict_get (cells (rows ! i)) (fns ! p) = Some v"
  shows "\<exists>t. find_token (token_map st') v = Some t
     \<and> out' ! (length out + i) ! p = t
     \<and> (\<forall>j q. j < length rows \<and> q < length fns \<and> fns ! q \<in> set cols
            \<and> dict_get (cells (rows ! j)) (fns ! q) = Some v
          \<longrightarrow> out' ! (length out + j) ! q = t)
     \<and> (\<forall>g2 draws2 cols2 fns2 rows2 st2 out2 out2' st2' j q.
          tokenize_rows g2 draws2 cols2 fns2 rows2 st2 out2 = Some (Inr (), out2', st2')
          \<and> distinct cols2
          \<and> token_map st2 = fst (load_token_map (save_token_map (token_map st')) [] [])
          \<and> distinct (dict_keys (token_map st))
          \<and> v \<noteq> None
          \<and> (v = Some [] \<longrightarrow> (\<forall>e\<in>set (token_map st'). snd e \<noteq> None))
          \<and> j < length rows2 \<and> q < length fns2 \<and> fns2 ! q \<in> set cols2
          \<and> dict_get (cells (rows2 ! j)) (fns2 ! q) = Some v
          \<longrightarrow> out2' ! (length out2 + j) ! q = t)"
proof -
  from occurrence_token [OF run d i p c v] obtain t where
    t: "find_token (token_map st') v = Some t" and o: "out' ! (length out + i) ! p = t"
    by blast
  have same: "out' ! (length out + j) ! q = t"
    if "j < length rows \<and> q < length fns \<and> fns ! q \<in> set cols
        \<and> dict_get (cells (rows ! j)) (fns ! q) = Some v" for j q
  proof -
    from that occurrence_token [OF run d, of j q v] t show ?thesis by auto
  qed
  have later: "out2' ! (length out2 + j) ! q = t"
    if a: "tokenize_rows g2 draws2 cols2 fns2 rows2 st2 out2 = Some (Inr (), out2', st2')
          \<and> distinct cols2
          \<and> token_map st2 = fst (load_token_map (save_token_map (token_map st')) [] [])
          \<and> distinct (dict_keys (token_map st))
          \<and> v \<noteq> None
          \<and> (v = Some [] \<longrightarrow> (\<forall>e\<in>set (token_map st'). snd e \<noteq> None))
          \<and> j < length rows2 \<and> q < length fns2 \<and> fns2 ! q \<in> set cols2
          \<and> dict_get (cells (rows2 ! j)) (fns2 ! q) = Some v"
    for g2 draws2 cols2 fns2 rows2 st2 out2 out2' st2' j q
  proof -
    from a have run2: "tokenize_rows g2 draws2 cols2 fns2 rows2 st2 out2
        = Some (Inr (), out2', st2')"
      and d2: "distinct cols2"
      and re: "token_map st2 = fst (load_token_map (save_token_map (token_map st')) [] [])"
      and dk: "distinct (dict_keys (token_map st))"
      and vn: "v \<noteq> None"
      and ve: "v = Some [] \<longrightarrow> (\<forall>e\<in>set (token_map st'). snd e \<noteq> None)"
      and j: "j < length rows2" and q: "q < length fns2" and c2: "fns2 ! q \<in> set cols2"
      and v2: "dict_get (cells (rows2 ! j)) (fns2 ! q) = Some v"
      by simp_all
    from extends_fresh_distinct [OF tokenize_rows_extends [OF run]] dk
    have "distinct (dict_keys (token_map st'))" by simp
    from load_save [OF this] re have "token_map st2 = reloaded (token_map st')" by simp
    with find_token_reloaded [OF vn ve] t have "find_token (token_map st2) v = Some t" by simp
    from extends_fresh_find [OF tokenize_rows_extends [OF run2] this]
    have "find_token (token_map st2') v = Some t" .
    with occurrence_token [OF run2 d2 j q c2 v2] show ?thesis by simp
  qed
  from t o same later show ?thesis by blast
qed

theorem same_value_same_token_witness:
  "tokenize_rows GenUuid (\<lambda>i. ''u'' @ str_nat i) [''ssn''] [''id'', ''ssn'']
       (dict_reader [''id'', ''ssn''] [[''1'', ''a''], [''2'', ''b''], [''3'', ''a'']])
       \<lparr>token_map = [], next_draw = 0, warnings = []\<rparr> [[''id'', ''ssn'']]
     = Some (Inr (), [[''id'', ''ssn''], [''1'', ''u0''], [''2'', ''u1''], [''3'', ''u0'']],
         \<lparr>token_map = [(''u0'', Some ''a''), (''u1'', Some ''b'')], next_draw = 2,
           warnings = []\<rparr>)
   \<and> distinct [''ssn'']
   \<and> [''id'', ''ssn''] ! 1 \<in> set [''ssn'']
   \<and> dict_get (cells (dict_reader [''id'', ''ssn'']
         [[''1'', ''a''], [''2'', ''b''], [''3'', ''a'']] ! 0)) ([''id'', ''ssn''] ! 1) = Some (Some ''a'')
   \<and> dict_get (cells (dict_reader [''id'', ''ssn'']
         [[''1'', ''a''], [''2'', ''b''], [''3'', ''a'']] ! 2)) ([''id'', ''ssn''] ! 1) = Some (Some ''a'')
   \<and> [[''id'', ''ssn''], [''1'', ''u0''], [''2'', ''u1''], [''3'', ''u0'']] ! (length [[''id'', ''ssn'']] + 0) ! 1
       = [[''id'', ''ssn''], [''1'', ''u0''], [''2'', ''u1''], [''3'', ''u0'']] ! (length [[''id'', ''ssn'']] + 2) ! 1
   \<and> tokenize_rows GenSequential (\<lambda>i. []) [''ssn''] [''ssn'']
       (dict_reader [''ssn''] [[''c''], [''a'']])
       \<lparr>token_map = fst (load_token_map
            (save_token_map [(''u0'', Some ''a''), (''u1'', Some ''b'')]) [] []),
         next_draw = 0, warnings = []\<rparr> [[''ssn'']]
     = Some (Inr (), [[''ssn''], [''1''], [''u0'']],
         \<lparr>token_map = [(''u0'', Some ''a''), (''u1'', Some ''b''), (''1'', Some ''c'')],
           next_draw = 0, warnings = []\<rparr>)
   \<and> [[''ssn''], [''1''], [''u0'']] ! (length [[''ssn'']] + 1) ! 0
       = [[''id'', ''ssn''], [''1'', ''u0''], [''2'', ''u1''], [''3'', ''u0'']] ! (length [[''id'', ''ssn'']] + 0) ! 1"
proof -
  let ?rows = "dict_reader [''id'', ''ssn''] [[''1'', ''a''], [''2'', ''b''], [''3'', ''a'']]"
  let ?out = "[[''id'', ''ssn''], [''1'', ''u0''], [''2'', ''u1''], [''3'', ''u0'']]"
  let ?st = "\<lparr>token_map = [], next_draw = 0, warnings = []\<rparr>"
  let ?st' = "\<lparr>token_map = [(''u0'', Some ''a''), (''u1'', Some ''b'')], next_draw = 2,
           warnings = []\<rparr>"
  let ?rows2 = "dict_reader [''ssn''] [[''c''], [''a'']]"
  let ?st2 = "\<lparr>token_map = fst (load_token_map
            (save_token_map [(''u0'', Some ''a''), (''u1'', Some ''b'')]) [] []),
         next_draw = 0, warnings = []\<rparr>"
  let ?st2' = "\<lparr>token_map = [(''u0'', Some ''a''), (''u1'', Some ''b''), (''1'', Some ''c'')],
           next_draw = 0, warnings = []\<rparr>"
  let ?out2 = "[[''ssn''], [''1''], [''u0'']]"
  have run: "tokenize_rows GenUuid (\<lambda>i. ''u'' @ str_nat i) [''ssn''] [''id'', ''ssn''] ?rows
       ?st [[''id'', ''ssn'']] = Some (Inr (), ?out, ?st')"
    by code_simp
  have d: "distinct [''ssn'']" by simp
  have i: "0 < length ?rows" "2 < length ?rows" by (simp_all add: dict_reader_def)
  have p: "1 < length [''id'', ''ssn'']" by simp
  have c: "[''id'', ''ssn''] ! 1 \<in> set [''ssn'']" by simp
  have v0: "dict_get (cells (?rows ! 0)) ([''id'', ''ssn''] ! 1) = Some (Some ''a'')"
    by code_simp
  have v2: "dict_get (cells (?rows ! 2)) ([''id'', ''ssn''] ! 1) = Some (Some ''a'')"
    by code_simp
  have run2: "tokenize_rows GenSequential (\<lambda>i. []) [''ssn''] [''ssn''] ?rows2 ?st2 [[''ssn'']]
      = Some (Inr (), ?out2, ?st2')"
    by code_simp
  have pre2: "tokenize_rows GenSequential (\<lambda>i. []) [''ssn''] [''ssn''] ?rows2 ?st2 [[''ssn'']]
        = Some (Inr (), ?out2, ?st2')
      \<and> distinct [''ssn'']
      \<and> token_map ?st2 = fst (load_token_map (save_token_map (token_map ?st')) [] [])
      \<and> distinct (dict_keys (token_map ?st))
      \<and> Some ''a'' \<noteq> None
      \<and> (Some ''a'' = Some [] \<longrightarrow> (\<forall>e\<in>set (token_map ?st'). snd e \<noteq> None))
      \<and> 1 < length ?rows2 \<and> 0 < length [''ssn''] \<and> [''ssn''] ! 0 \<in> set [''ssn'']
      \<and> dict_get (cells (?rows2 ! 1)) ([''ssn''] ! 0) = Some (Some ''a'')"
    using run2 by (simp add: dict_keys_def dict_reader_def dict_reader_row_def dict_get_def)
  from same_value_same_token [OF run d i(1) p c v0] obtain t where
    a: "?out ! (length [[''id'', ''ssn'']] + 0) ! 1 = t"
    and b: "\<forall>j q. j < length ?rows \<and> q < length [''id'', ''ssn''] \<and> [''id'', ''ssn''] ! q \<in> set [''ssn'']
            \<and> dict_get (cells (?rows ! j)) ([''id'', ''ssn''] ! q) = Some (Some ''a'')
          \<longrightarrow> ?out ! (length [[''id'', ''ssn'']] + j) ! q = t"
    and l: "\<forall>g2 draws2 cols2 fns2 rows2 st2 out2 out2' st2' j q.
          tokenize_rows g2 draws2 cols2 fns2 rows2 st2 out2 = Some (Inr (), out2', st2')
          \<and> distinct cols2
          \<and> token_map st2 = fst (load_token_map (save_token_map (token_map ?st')) [] [])
          \<and> distinct (dict_keys (token_map ?st))
          \<and> Some ''a'' \<noteq> None
          \<and> (Some ''a'' = Some [] \<longrightarrow> (\<forall>e\<in>set (token_map ?st'). snd e \<noteq> None))
          \<and> j < length rows2 \<and> q < length fns2 \<and> fns2 ! q \<in> set cols2
          \<and> dict_get (cells (rows2 ! j)) (fns2 ! q) = Some (Some ''a'')
          \<longrightarrow> out2' ! (length out2 + j) ! q = t"
    by blast
  from b i(2) p c v2 have "?out ! (length [[''id'', ''ssn'']] + 2) ! 1 = t" by blast
  with a have e: "?out ! (length [[''id'', ''ssn'']] + 0) ! 1
      = ?out ! (length [[''id'', ''ssn'']] + 2) ! 1" by simp
  from l [rule_format, OF pre2] a
  have e2: "?out2 ! (length [[''ssn'']] + 1) ! 0 = ?out ! (length [[''id'', ''ssn'']] + 0) ! 1"
    by simp
  from run d c v0 v2 e run2 e2 show ?thesis by (intro conjI)
qed


text \<open>
  The claim as stated, for every value and across passes that reuse the mapping file,
  fails for the empty string after a row shorter than the header. In the first pass the
  missing \<^verbatim>\<open>ssn\<close> of \<^verbatim>\<open>r1\<close> (\<^verbatim>\<open>None\<close>) gets the token \<^verbatim>\<open>1\<close> and the empty \<^verbatim>\<open>ssn\<close> of \<^verbatim>\<open>r2\<close> the
  token \<^verbatim>\<open>2\<close>; the mapping file stores both values as the empty string; in the second
  pass, on the same input and the saved mapping, the empty string gets the token \<^verbatim>\<open>1\<close>.
\<close>

theorem empty_string_token_counterexample:
  "\<exists>w1 w2.
     tokenize_data (\<lambda>i. []) ''in.csv'' ''out1.csv'' [''ssn''] ''sequential'' ''map.csv''
       (disk [''in.csv'' \<mapsto> [[''id'', ''ssn''], [''r1''], [''r2'', '''']]])
       = Some (Inr (), w1)
     \<and> files w1 ''out1.csv'' = Some [[''id'', ''ssn''], [''r1'', ''1''], [''r2'', ''2'']]
     \<and> files w1 ''map.csv'' = Some [[''1'', ''''], [''2'', '''']]
     \<and> tokenize_data (\<lambda>i. []) ''in.csv'' ''out2.csv'' [''ssn''] ''sequential'' ''map.csv'' w1
       = Some (Inr (), w2)
     \<and> files w2 ''out2.csv'' = Some [[''id'', ''ssn''], [''r1'', ''3''], [''r2'', ''1'']]
     \<and> dict_get (cells (dict_reader [''id'', ''ssn''] [[''r1''], [''r2'', '''']] ! 1)) ''ssn''
         = Some (Some '''')"
proof -
  let ?rs = "[[''r1''], [''r2'', '''']]"
  let ?fs = "[''in.csv'' \<mapsto> [''id'', ''ssn''] # ?rs]"
  let ?w = "disk ?fs"
  let ?st1 = "\<lparr>token_map = [(''1'', None), (''2'', Some '''')], next_draw = 0, warnings = []\<rparr>"
  let ?out1 = "[[''id'', ''ssn''], [''r1'', ''1''], [''r2'', ''2'']]"
  let ?st2 = "\<lparr>token_map = [(''1'', Some ''''), (''2'', Some ''''), (''3'', None)],
      next_draw = 0, warnings = []\<rparr>"
  let ?out2 = "[[''id'', ''ssn''], [''r1'', ''3''], [''r2'', ''1'']]"
  have g: "select_generator ''sequential'' = Inr GenSequential"
    by (simp add: select_generator_def)
  have w0: "files ?w = ?fs" "open_fault ?w = Map.empty" "read_fault ?w = Map.empty"
    "write_fault ?w = Map.empty" "rng ?w = 0"
    by (simp_all add: disk_def)
  have ld1: "load_error ?w ''map.csv'' = None" and l1: "loaded_map ?w ''map.csv'' = []"
    by (simp_all add: load_error_def loaded_map_def w0)
  have i1: "files ?w ''in.csv'' = Some ([''id'', ''ssn''] # ?rs)" by (simp add: w0)
  have ok1: "open_fault ?w ''in.csv'' = None" "read_fault ?w ''in.csv'' = None"
    "write_fault ?w ''out1.csv'' = None" "write_fault ?w ''map.csv'' = None"
    by (simp_all add: w0)
  have run1: "tokenize_rows GenSequential (\<lambda>i. []) [''ssn''] [''id'', ''ssn'']
      (dict_reader [''id'', ''ssn''] ?rs)
      \<lparr>token_map = [], next_draw = 0, warnings = []\<rparr> [[''id'', ''ssn'']]
    = Some (Inr (), ?out1, ?st1)"
    by code_simp
  have run1': "tokenize_rows GenSequential (\<lambda>i. []) [''ssn''] [''id'', ''ssn'']
      (dict_reader [''id'', ''ssn''] ?rs)
      \<lparr>token_map = loaded_map ?w ''map.csv'', next_draw = rng ?w, warnings = []\<rparr>
      [[''id'', ''ssn'']]
    = Some (Inr (), ?out1, ?st1)"
    unfolding l1 w0(5) by (rule run1)
  have ne1: "''in.csv'' \<noteq> ''out1.csv''" by simp
  from tokenize_data_success [OF g ld1 i1 ne1 ok1 run1'] obtain w1 where
    t1: "tokenize_data (\<lambda>i. []) ''in.csv'' ''out1.csv'' [''ssn''] ''sequential'' ''map.csv'' ?w
      = Some (Inr (), w1)"
    and f1: "files w1 = (files ?w)(''out1.csv'' \<mapsto> ?out1,
        ''map.csv'' \<mapsto> save_token_map (token_map ?st1))"
    and o1: "open_fault w1 = open_fault ?w"
    and r1: "read_fault w1 = (read_fault ?w)(''out1.csv'' := None, ''map.csv'' := None)"
    and wf1: "write_fault w1 = write_fault ?w"
    and rng1: "rng w1 = next_draw ?st1"
    by blast
  from f1 have fo1: "files w1 ''out1.csv'' = Some ?out1"
    and fm1: "files w1 ''map.csv'' = Some [[''1'', ''''], [''2'', '''']]"
    and i2: "files w1 ''in.csv'' = Some ([''id'', ''ssn''] # ?rs)"
    by (simp_all add: save_token_map_def w0)
  have ld2: "load_error w1 ''map.csv'' = None"
    by (simp add: load_error_def o1 r1 w0 fm1)
  have l2: "loaded_map w1 ''map.csv'' = [(''1'', Some ''''), (''2'', Some '''')]"
    by (simp add: loaded_map_def fm1)
  have ok2: "open_fault w1 ''in.csv'' = None" "read_fault w1 ''in.csv'' = None"
    "write_fault w1 ''out2.csv'' = None" "write_fault w1 ''map.csv'' = None"
    by (simp_all add: o1 r1 wf1 w0)
  have rw1: "rng w1 = 0" using rng1 by simp
  have run2: "tokenize_rows GenSequential (\<lambda>i. []) [''ssn''] [''id'', ''ssn'']
      (dict_reader [''id'', ''ssn''] ?rs)
      \<lparr>token_map = [(''1'', Some ''''), (''2'', Some '''')], next_draw = 0, warnings = []\<rparr>
      [[''id'', ''ssn'']]
    = Some (Inr (), ?out2, ?st2)"
    by code_simp
  have run2': "tokenize_rows GenSequential (\<lambda>i. []) [''ssn''] [''id'', ''ssn'']
      (dict_reader [''id'', ''ssn''] ?rs)
      \<lparr>token_map = loaded_map w1 ''map.csv'', next_draw = rng w1, warnings = []\<rparr>
      [[''id'', ''ssn'']]
    = Some (Inr (), ?out2, ?st2)"
    unfolding l2 rw1 by (rule run2)
  have ne2: "''in.csv'' \<noteq> ''out2.csv''" by simp
  from tokenize_data_success [OF g ld2 i2 ne2 ok2 run2'] obtain w2 where
    t2: "tokenize_data (\<lambda>i. []) ''in.csv'' ''out2.csv'' [''ssn''] ''sequential'' ''map.csv'' w1
      = Some (Inr (), w2)"
    and f2: "files w2 = (files w1)(''out2.csv'' \<mapsto> ?out2,
        ''map.csv'' \<mapsto> save_token_map (token_map ?st2))"
    by blast
  from f2 have fo2: "files w2 ''out2.csv'' = Some ?out2" by simp
  have cell: "dict_get (cells (dict_reader [''id'', ''ssn''] ?rs ! 1)) ''ssn''
      = Some (Some '''')"
    by code_simp
  from t1 fo1 fm1 t2 fo2 cell show ?thesis by blast
qed

section \<open>Tokenizing and detokenizing again\<close>

lemma dict_of_zip_map:
  "dict_get (dict_of_zip ks (map f ks) d) k =
     (if k \<in> set ks then Some (Some (f k)) else dict_get d k)"
proof (induction ks arbitrary: d)
  case Nil
  show ?case by simp
next
  case (Cons k0 ks)
  show ?case by (simp add: Cons.IH dict_get_set)
qed

lemma dict_of_zip_entries:
  "e \<in> set (dict_of_zip ks vs d) \<Longrightarrow> e \<in> set d \<or> (\<exists>x\<in>set vs. snd e = Some x)"
proof (induction ks vs d rule: dict_of_zip.induct)
  case (1 k ks v vs d)
  from "1.prems" have "e \<in> set (dict_of_zip ks vs (dict_set d k (Some v)))" by simp
  from "1.IH" [OF this] dict_set_entries [of d k "Some v"] show ?case by auto
qed simp_all

lemma dict_reader_row_regular:
  assumes "length raw = length fns"
  shows "rest (dict_reader_row fns raw) = []"
    and "cells (dict_reader_row fns raw) = dict_of_zip fns raw []"
    and "\<forall>e\<in>set (cells (dict_reader_row fns raw)). \<exists>x\<in>set raw. snd e = Some x"
proof -
  from assms show "rest (dict_reader_row fns raw) = []"
    and c: "cells (dict_reader_row fns raw) = dict_of_zip fns raw []"
    by (simp_all add: dict_reader_row_def Let_def)
  show "\<forall>e\<in>set (cells (dict_reader_row fns raw)). \<exists>x\<in>set raw. snd e = Some x"
    unfolding c using dict_of_zip_entries [of _ fns raw "[]"] by auto
qed

lemma dict_reader_row_written:
  "dict_get (cells (dict_reader_row fns (map f fns))) k =
     (if k \<in> set fns then Some (Some (f k)) else None)"
  using dict_reader_row_regular(2) [of "map f fns" fns] dict_of_zip_map [of fns f "[]" k]
  by (simp add: dict_get_def)

lemma detokenize_rows_output:
  "\<forall>r\<in>set recs. rest r = [] \<and> set (dict_keys (cells r)) = set fns \<Longrightarrow>
     detokenize_rows tm fns recs out =
       (Inr (), out @ map (\<lambda>r. detokenized_line tm fns (cells r)) recs)"
proof (induction recs arbitrary: out)
  case Nil
  show ?case by simp
next
  case (Cons r recs)
  from Cons.prems have r0: "rest r = []" and ks: "set (dict_keys (cells r)) = set fns"
    by simp_all
  from detokenize_row_returns [of fns "cells r" tm] ks obtain d where
    d: "detokenize_row tm fns (cells r) = Inr d" by auto
  from detokenize_row_keys [OF d] ks r0 have "writable fns (Row d (rest r))"
    by (simp add: writable_def)
  from writerow_writable [OF this]
  have "writerow fns (Row d (rest r)) = Inr (detokenized_line tm fns (cells r))"
    by (simp add: detokenized_line_def detokenize_row_cells [OF d])
  with d Cons.IH [of "out @ [detokenized_line tm fns (cells r)]"] Cons.prems
  show ?case by simp
qed

lemma detokenize_data_success:
  assumes m: "files w token_map_file = Some mrows"
    and mok: "open_fault w token_map_file = None" "read_fault w token_map_file = None"
    and inp: "files w input_file = Some (fieldnames # rs)"
    and iok: "open_fault w input_file = None" "read_fault w input_file = None"
    and wok: "write_fault w output_file = None"
    and ne: "input_file \<noteq> output_file"
    and run: "detokenize_rows (fst (load_token_map mrows [] [])) fieldnames
        (dict_reader fieldnames rs) [fieldnames] = (Inr (), out)"
  shows "\<exists>w'. detokenize_data input_file output_file token_map_file w = (Inr (), w')
         \<and> files w' = (files w)(output_file \<mapsto> out)"
proof -
  obtain tm lg where l: "load_token_map mrows [] [] = (tm, lg)"
    by (cases "load_token_map mrows [] []")
  let ?w1 = "w\<lparr>trace := trace w @ [OpenRead token_map_file], log := log w @ lg\<rparr>"
  from m mok l have r: "read_token_map token_map_file w = (Inr tm, ?w1)"
    by (simp add: read_token_map_def open_read_def Let_def)
  from inp iok wok ne run l
  have "\<exists>w'. detokenize_records input_file output_file tm ?w1 = (Inr (), w')
      \<and> files w' = (files w)(output_file \<mapsto> out)"
    by (simp add: detokenize_records_def open_read_def open_write_def Let_def)
  with r show ?thesis by (simp add: detokenize_data_def)
qed

lemma lookup_once_fixed: "lookup_once tm c = c \<Longrightarrow> (lookup_once tm ^^ n) c = c"
  by (induction n) simp_all

lemma dict_get_reloaded: "dict_get (reloaded m) t = map_option (\<lambda>v. Some (csv_field v)) (dict_get m t)"
  by (induction m) (auto simp: reloaded_def dict_get_def)

lemma lookup_once_reloaded_token:
  assumes "distinct (dict_keys tm)" and "find_token tm v = Some t"
  shows "lookup_once (reloaded tm) (Some t) = Some (csv_field v)"
  using find_token_Some_get [OF assms] by (simp add: lookup_once_def dict_get_reloaded)

lemma roundtrip_line:
  assumes dk: "distinct (dict_keys tm)"
    and keys: "set (dict_keys r) = set fns"
    and nocoll: "\<forall>k c. dict_get r k = Some c \<longrightarrow>
        lookup_once (reloaded tm) (Some (csv_field c)) = Some (csv_field c)"
    and tok: "\<forall>k\<in>set cols. \<forall>v. dict_get r k = Some v \<longrightarrow> find_token tm v \<noteq> None"
  shows "detokenized_line (reloaded tm) fns
       (cells (dict_reader_row fns (tokenized_line tm cols fns r)))
     = written_line fns r"
proof -
  let ?tm1 = "reloaded tm"
  have "(case map_option (lookup_once ?tm1 ^^ count_list fns k)
            (dict_get (cells (dict_reader_row fns (tokenized_line tm cols fns r))) k) of
          Some c \<Rightarrow> csv_field c | None \<Rightarrow> [])
      = (case dict_get r k of Some c \<Rightarrow> csv_field c | None \<Rightarrow> [])"
    if k: "k \<in> set fns" for k
  proof -
    from k keys obtain c where c: "dict_get r k = Some c"
      by (cases "dict_get r k") (auto simp: dict_get_None_iff)
    from c nocoll have fx: "lookup_once ?tm1 (Some (csv_field c)) = Some (csv_field c)"
      by blast
    from k obtain n where n: "count_list fns k = Suc n"
      by (cases "count_list fns k") (simp_all add: count_list_0_iff)
    have cell: "dict_get (cells (dict_reader_row fns (tokenized_line tm cols fns r))) k
        = Some (Some (case tokenized_cell tm cols r k of Some c \<Rightarrow> csv_field c | None \<Rightarrow> []))"
      unfolding tokenized_line_def using k by (simp add: dict_reader_row_written)
    show ?thesis
    proof (cases "k \<in> set cols")
      case True
      with tok c obtain t where t: "find_token tm c = Some t" by auto
      from True c t have "tokenized_cell tm cols r k = Some (Some t)"
        by (simp add: tokenized_cell_def)
      with cell have "dict_get (cells (dict_reader_row fns (tokenized_line tm cols fns r))) k
        = Some (Some t)" by simp
      moreover have "(lookup_once ?tm1 ^^ Suc n) (Some t) = Some (csv_field c)"
        using lookup_once_reloaded_token [OF dk t] lookup_once_fixed [OF fx, of n]
        by (simp add: funpow_swap1)
      ultimately show ?thesis using c n by simp
    next
      case False
      with c have "tokenized_cell tm cols r k = Some c"
        by (simp add: tokenized_cell_def)
      with cell have "dict_get (cells (dict_reader_row fns (tokenized_line tm cols fns r))) k
        = Some (Some (csv_field c))" by simp
      with lookup_once_fixed [OF fx, of "Suc n"] c n show ?thesis by simp
    qed
  qed
  then show ?thesis by (simp add: detokenized_line_def written_line_def)
qed

lemma dict_reader_row_written_line:
  assumes keys: "set (dict_keys r) = set fns"
  shows "dict_get (cells (dict_reader_row fns (written_line fns r))) k
     = map_option (\<lambda>c. Some (csv_field c)) (dict_get r k)"
proof (cases "k \<in> set fns")
  case False
  with keys have "dict_get r k = None" by (simp add: dict_get_None_iff)
  with False show ?thesis by (simp add: written_line_def dict_reader_row_written)
next
  case True
  with keys obtain c where c: "dict_get r k = Some c"
    by (cases "dict_get r k") (auto simp: dict_get_None_iff)
  with True show ?thesis by (simp add: written_line_def dict_reader_row_written)
qed

lemma dict_of_zip_notin:
  "k \<notin> set ks \<Longrightarrow> dict_get (dict_of_zip ks vs d) k = dict_get d k"
  by (induction ks vs d rule: dict_of_zip.induct) (simp_all add: dict_get_set)

lemma dict_of_zip_nth:
  "distinct ks \<Longrightarrow> p < length ks \<Longrightarrow> p < length vs
     \<Longrightarrow> dict_get (dict_of_zip ks vs d) (ks ! p) = Some (Some (vs ! p))"
proof (induction ks vs d arbitrary: p rule: dict_of_zip.induct)
  case (1 k ks v vs d)
  show ?case
  proof (cases p)
    case 0
    with "1.prems" show ?thesis by (simp add: dict_of_zip_notin dict_get_set)
  next
    case (Suc p')
    with "1.prems" "1.IH" [of p'] show ?thesis by simp
  qed
qed simp_all

lemma fill_restval_get:
  "dict_get (fill_restval ks d) k = (if k \<in> set ks then Some None else dict_get d k)"
  by (induction ks arbitrary: d) (auto simp: dict_get_set)

lemma dict_reader_row_nth:
  assumes d: "distinct fns" and p: "p < length fns" and l: "length raw \<le> length fns"
  shows "dict_get (cells (dict_reader_row fns raw)) (fns ! p)
     = Some (if p < length raw then Some (raw ! p) else None)"
proof (cases "p < length raw")
  case True
  from d p True have "fns ! p \<notin> set (drop (length raw) fns)"
    by (metis append_take_drop_id distinct_append disjoint_iff in_set_conv_nth length_take
        min_less_iff_conj nth_take)
  with True dict_of_zip_nth [OF d p True, of "[]"] l show ?thesis
    by (auto simp: dict_reader_row_def Let_def fill_restval_get)
next
  case False
  with p have "fns ! p \<in> set (drop (length raw) fns)"
    by (auto simp: in_set_conv_nth intro!: exI [of _ "p - length raw"])
  with False p l show ?thesis
    by (auto simp: dict_reader_row_def Let_def fill_restval_get)
qed

lemma written_line_short:
  assumes d: "distinct fns" and l: "length raw \<le> length fns"
  shows "written_line fns (cells (dict_reader_row fns raw))
     = raw @ replicate (length fns - length raw) []"
proof (rule nth_equalityI)
  show "length (written_line fns (cells (dict_reader_row fns raw)))
      = length (raw @ replicate (length fns - length raw) [])"
    using l by (simp add: written_line_def)
next
  fix p assume "p < length (written_line fns (cells (dict_reader_row fns raw)))"
  then have p: "p < length fns" by (simp add: written_line_def)
  from dict_reader_row_nth [OF d p l] p
  show "written_line fns (cells (dict_reader_row fns raw)) ! p
      = (raw @ replicate (length fns - length raw) []) ! p"
    by (auto simp: written_line_def nth_append)
qed

lemma tokenized_line_length [simp]: "length (tokenized_line tm cols fns r) = length fns"
  by (simp add: tokenized_line_def)

lemma written_line_length [simp]: "length (written_line fns r) = length fns"
  by (simp add: written_line_def)

lemma roundtrip_rows:
  assumes run: "tokenize_rows g draws cols fns rows st out = Some (Inr (), out', st')"
    and d: "distinct cols"
    and dk: "distinct (dict_keys (token_map st))"
    and wf: "\<forall>r\<in>set rows. set (dict_keys (cells r)) = set fns"
    and nocoll: "\<forall>r\<in>set rows. \<forall>k c. dict_get (cells r) k = Some c \<longrightarrow>
        lookup_once (reloaded (token_map st')) (Some (csv_field c)) = Some (csv_field c)"
  shows "detokenize_rows (reloaded (token_map st')) fns
      (map (\<lambda>r. dict_reader_row fns (tokenized_line (token_map st') cols fns (cells r))) rows)
      out2
    = (Inr (), out2 @ map (\<lambda>r. written_line fns (cells r)) rows)"
proof -
  let ?tm = "token_map st'"
  let ?rec = "\<lambda>r. dict_reader_row fns (tokenized_line ?tm cols fns (cells r))"
  have ok: "\<forall>r\<in>set (map ?rec rows). rest r = [] \<and> set (dict_keys (cells r)) = set fns"
    by (auto simp: dict_reader_row_keys dict_reader_row_regular(1))
  from extends_fresh_distinct [OF tokenize_rows_extends [OF run]] dk
  have dk': "distinct (dict_keys ?tm)" by simp
  have line: "detokenized_line (reloaded ?tm) fns (cells (?rec r)) = written_line fns (cells r)"
    if r: "r \<in> set rows" for r
  proof (rule roundtrip_line [OF dk'])
    from wf r show "set (dict_keys (cells r)) = set fns" by simp
    from nocoll r show "\<forall>k c. dict_get (cells r) k = Some c \<longrightarrow>
        lookup_once (reloaded ?tm) (Some (csv_field c)) = Some (csv_field c)" by simp
    show "\<forall>k\<in>set cols. \<forall>v. dict_get (cells r) k = Some v \<longrightarrow> find_token ?tm v \<noteq> None"
      using tokenize_rows_has_token [OF run d r] by fastforce
  qed
  from detokenize_rows_output [OF ok, of "reloaded ?tm" out2] line show ?thesis
    by (simp add: comp_def cong: map_cong)
qed

lemma dict_reader_lines:
  assumes "\<forall>l\<in>set ls. length l = length fns" and "fns = [] \<longrightarrow> ls = []"
  shows "dict_reader fns ls = map (dict_reader_row fns) ls"
proof -
  from assms have "filter (\<lambda>r. r \<noteq> []) ls = ls" by (auto simp: filter_id_conv)
  then show ?thesis by (simp add: dict_reader_def)
qed

text \<open>
  C1, as the code has it. A run of \<^verbatim>\<open>tokenize_data\<close> that returns normally, followed by
  \<^verbatim>\<open>detokenize_data\<close> on its output file with the mapping file it saved: detokenization
  returns normally, and every record of the file it writes has, in every column and so
  in the tokenized ones, the value of the original record, a missing value (\<^verbatim>\<open>None\<close>, the
  cell of a row shorter than the header) having become the empty string. So every
  string of the original records is restored, and when the header's names are pairwise
  different the restored file is the original one with the blank lines dropped and the
  short rows filled up with empty fields. The precondition of the claim is \<open>nocoll\<close>: no
  value of the input (the empty string for a missing one) is a token of the saved
  mapping, except a token that stands for itself. The configured columns are pairwise
  different, the output file is not the mapping file, the restored file is not the
  tokenized one, the tokenized file can be opened for reading and the restored file for
  writing.
\<close>

theorem tokenize_detokenize_roundtrip:
  assumes tok: "tokenize_data draws input_file output_file cols token_method token_map_file w
      = Some (Inr (), w1)"
    and inp: "files w input_file = Some (fieldnames # rs)"
    and d: "distinct cols"
    and p1: "output_file \<noteq> token_map_file" and p2: "restored_file \<noteq> output_file"
    and io: "open_fault w1 output_file = None" "write_fault w1 restored_file = None"
    and nocoll: "\<forall>r\<in>set (dict_reader fieldnames rs). \<forall>k c. dict_get (cells r) k = Some c \<longrightarrow>
        lookup_once (fst (load_token_map (the (files w1 token_map_file)) [] []))
          (Some (csv_field c)) = Some (csv_field c)"
  shows "\<exists>w2 lines. detokenize_data output_file restored_file token_map_file w1 = (Inr (), w2)
      \<and> files w2 restored_file = Some (fieldnames # lines)
      \<and> length (dict_reader fieldnames lines) = length (dict_reader fieldnames rs)
      \<and> (\<forall>i<length (dict_reader fieldnames rs). \<forall>k.
            dict_get (cells (dict_reader fieldnames lines ! i)) k
              = map_option (\<lambda>c. Some (csv_field c))
                  (dict_get (cells (dict_reader fieldnames rs ! i)) k))
      \<and> (\<forall>i<length (dict_reader fieldnames rs). \<forall>k s.
            dict_get (cells (dict_reader fieldnames rs ! i)) k = Some (Some s)
              \<longrightarrow> dict_get (cells (dict_reader fieldnames lines ! i)) k = Some (Some s))
      \<and> (distinct fieldnames \<longrightarrow>
            lines = map (\<lambda>r. r @ replicate (length fieldnames - length r) [])
                      (filter (\<lambda>r. r \<noteq> []) rs))"
proof -
  let ?rows = "dict_reader fieldnames rs"
  from tokenize_data_Inr [OF tok] inp obtain g out st where
    ld: "load_error w token_map_file = None"
    and run: "tokenize_rows g draws cols fieldnames ?rows
           \<lparr>token_map = loaded_map w token_map_file, next_draw = rng w, warnings = []\<rparr>
           [fieldnames] = Some (Inr (), out, st)"
    and f: "files w1 = (files w)(output_file \<mapsto> out,
                               token_map_file \<mapsto> save_token_map (token_map st))"
    and o1: "open_fault w1 = open_fault w"
    and r1: "read_fault w1 = (read_fault w)(output_file := None, token_map_file := None)"
    by auto
  let ?tm = "token_map st"
  let ?st0 = "\<lparr>token_map = loaded_map w token_map_file, next_draw = rng w, warnings = []\<rparr>"
  let ?tlines = "map (\<lambda>r. tokenized_line ?tm cols fieldnames (cells r)) ?rows"
  let ?lines = "map (\<lambda>r. written_line fieldnames (cells r)) ?rows"
  have wf: "\<forall>r\<in>set ?rows. set (dict_keys (cells r)) = set fieldnames"
    by (auto simp: dict_reader_def dict_reader_row_keys)
  from f p1 have out: "files w1 output_file = Some out"
    and saved: "files w1 token_map_file = Some (save_token_map ?tm)"
    by simp_all
  from tokenize_rows_output [OF run d]
  have out_eq: "out = fieldnames # ?tlines" and wr: "\<forall>r\<in>set ?rows. writable fieldnames r"
    by simp_all
  have short: "length x \<le> length fieldnames" if "x \<in> set (filter (\<lambda>r. r \<noteq> []) rs)" for x
  proof -
    from that have "dict_reader_row fieldnames x \<in> set ?rows" by (simp add: dict_reader_def)
    with wr have "writable fieldnames (dict_reader_row fieldnames x)" by blast
    then show ?thesis by (simp only: writable_dict_reader_row)
  qed
  have empty: "fieldnames = [] \<longrightarrow> ?rows = []"
  proof
    assume e: "fieldnames = []"
    have "filter (\<lambda>r. r \<noteq> []) rs = []"
    proof (rule ccontr)
      assume "filter (\<lambda>r. r \<noteq> []) rs \<noteq> []"
      then obtain x where x: "x \<in> set (filter (\<lambda>r. r \<noteq> []) rs)"
        by (cases "filter (\<lambda>r. r \<noteq> []) rs") auto
      from short [OF x] e x show False by simp
    qed
    then show "?rows = []" by (simp add: dict_reader_def)
  qed
  have dk0: "distinct (dict_keys (token_map ?st0))"
    by (simp add: loaded_map_distinct)
  from extends_fresh_distinct [OF tokenize_rows_extends [OF run]] dk0
  have dk: "distinct (dict_keys ?tm)" by simp
  from load_save [OF dk] saved
  have tm1: "fst (load_token_map (the (files w1 token_map_file)) [] []) = reloaded ?tm" by simp
  from nocoll have nocoll': "\<forall>r\<in>set ?rows. \<forall>k c. dict_get (cells r) k = Some c \<longrightarrow>
        lookup_once (reloaded ?tm) (Some (csv_field c)) = Some (csv_field c)"
    unfolding tm1 .
  have rd_t: "dict_reader fieldnames ?tlines
      = map (\<lambda>r. dict_reader_row fieldnames (tokenized_line ?tm cols fieldnames (cells r))) ?rows"
    using dict_reader_lines [of ?tlines fieldnames] empty by (simp add: comp_def)
  have rd_l: "dict_reader fieldnames ?lines
      = map (\<lambda>r. dict_reader_row fieldnames (written_line fieldnames (cells r))) ?rows"
    using dict_reader_lines [of ?lines fieldnames] empty by (simp add: comp_def)
  from roundtrip_rows [OF run d dk0 wf nocoll', of "[fieldnames]"]
  have dr: "detokenize_rows (fst (load_token_map (save_token_map ?tm) [] [])) fieldnames
      (dict_reader fieldnames ?tlines) [fieldnames] = (Inr (), fieldnames # ?lines)"
    unfolding rd_t using tm1 saved by simp
  from ld have mo: "open_fault w token_map_file = None"
    by (auto simp: load_error_def split: option.splits)
  from mo o1 r1 have mok: "open_fault w1 token_map_file = None"
    "read_fault w1 token_map_file = None"
    by simp_all
  from r1 have iok: "read_fault w1 output_file = None" by simp
  from detokenize_data_success [OF saved mok out [unfolded out_eq] io(1) iok io(2)
      p2 [symmetric] dr]
  obtain w2 where
    detok: "detokenize_data output_file restored_file token_map_file w1 = (Inr (), w2)"
    and f2: "files w2 = (files w1)(restored_file \<mapsto> fieldnames # ?lines)"
    by blast
  from f2 have res: "files w2 restored_file = Some (fieldnames # ?lines)" by simp
  have len: "length (dict_reader fieldnames ?lines) = length ?rows"
    unfolding rd_l by simp
  have cellseq: "\<forall>i<length ?rows. \<forall>k.
      dict_get (cells (dict_reader fieldnames ?lines ! i)) k
        = map_option (\<lambda>c. Some (csv_field c)) (dict_get (cells (?rows ! i)) k)"
  proof (intro allI impI)
    fix i k assume i: "i < length ?rows"
    then have m: "?rows ! i \<in> set ?rows" by simp
    from i have "dict_reader fieldnames ?lines ! i
        = dict_reader_row fieldnames (written_line fieldnames (cells (?rows ! i)))"
      unfolding rd_l by simp
    with wf m dict_reader_row_written_line [of "cells (?rows ! i)" fieldnames k]
    show "dict_get (cells (dict_reader fieldnames ?lines ! i)) k
        = map_option (\<lambda>c. Some (csv_field c)) (dict_get (cells (?rows ! i)) k)"
      by simp
  qed
  from cellseq have strings: "\<forall>i<length ?rows. \<forall>k s.
      dict_get (cells (?rows ! i)) k = Some (Some s)
        \<longrightarrow> dict_get (cells (dict_reader fieldnames ?lines ! i)) k = Some (Some s)"
    by simp
  have same: "distinct fieldnames \<longrightarrow>
      ?lines = map (\<lambda>r. r @ replicate (length fieldnames - length r) [])
                 (filter (\<lambda>r. r \<noteq> []) rs)"
  proof
    assume df: "distinct fieldnames"
    have "written_line fieldnames (cells (dict_reader_row fieldnames x))
        = x @ replicate (length fieldnames - length x) []"
      if "x \<in> set (filter (\<lambda>r. r \<noteq> []) rs)" for x
      using written_line_short [OF df short [OF that]] .
    then show "?lines = map (\<lambda>r. r @ replicate (length fieldnames - length r) [])
                 (filter (\<lambda>r. r \<noteq> []) rs)"
      by (simp add: dict_reader_def comp_def cong: map_cong)
  qed
  from detok res len cellseq strings same show ?thesis by blast
qed

theorem tokenize_detokenize_roundtrip_witness:
  "\<exists>w1 w2. tokenize_data (\<lambda>i. []) ''in.csv'' ''out.csv'' [''ssn''] ''sequential'' ''map.csv''
        (disk [''in.csv'' \<mapsto> [[''id'', ''ssn''], [''r1'', ''a''], [''r2'', ''b''], [''r3'', ''a'']]])
      = Some (Inr (), w1)
    \<and> files w1 ''out.csv'' = Some [[''id'', ''ssn''], [''r1'', ''1''], [''r2'', ''2''], [''r3'', ''1'']]
    \<and> files w1 ''map.csv'' = Some [[''1'', ''a''], [''2'', ''b'']]
    \<and> detokenize_data ''out.csv'' ''back.csv'' ''map.csv'' w1 = (Inr (), w2)
    \<and> files w2 ''back.csv''
        = Some [[''id'', ''ssn''], [''r1'', ''a''], [''r2'', ''b''], [''r3'', ''a'']]"
proof -
  let ?rs = "[[''r1'', ''a''], [''r2'', ''b''], [''r3'', ''a'']]"
  let ?w = "disk [''in.csv'' \<mapsto> [''id'', ''ssn''] # ?rs]"
  let ?st = "\<lparr>token_map = [(''1'', Some ''a''), (''2'', Some ''b'')], next_draw = 0,
      warnings = []\<rparr>"
  let ?out = "[[''id'', ''ssn''], [''r1'', ''1''], [''r2'', ''2''], [''r3'', ''1'']]"
  have w0: "files ?w = [''in.csv'' \<mapsto> [''id'', ''ssn''] # ?rs]" "open_fault ?w = Map.empty"
    "read_fault ?w = Map.empty" "write_fault ?w = Map.empty" "rng ?w = 0"
    by (simp_all add: disk_def)
  have l: "loaded_map ?w ''map.csv'' = []" and ld: "load_error ?w ''map.csv'' = None"
    by (simp_all add: loaded_map_def load_error_def w0)
  have g: "select_generator ''sequential'' = Inr GenSequential"
    by (simp add: select_generator_def)
  have i: "files ?w ''in.csv'' = Some ([''id'', ''ssn''] # ?rs)" by (simp add: w0)
  have ne: "''in.csv'' \<noteq> ''out.csv''" by simp
  have ok: "open_fault ?w ''in.csv'' = None" "read_fault ?w ''in.csv'' = None"
    "write_fault ?w ''out.csv'' = None" "write_fault ?w ''map.csv'' = None"
    by (simp_all add: w0)
  have run0: "tokenize_rows GenSequential (\<lambda>i. []) [''ssn''] [''id'', ''ssn'']
      (dict_reader [''id'', ''ssn''] ?rs)
      \<lparr>token_map = [], next_draw = 0, warnings = []\<rparr> [[''id'', ''ssn'']]
    = Some (Inr (), ?out, ?st)"
    by code_simp
  have run: "tokenize_rows GenSequential (\<lambda>i. []) [''ssn''] [''id'', ''ssn'']
      (dict_reader [''id'', ''ssn''] ?rs)
      \<lparr>token_map = loaded_map ?w ''map.csv'', next_draw = rng ?w, warnings = []\<rparr>
      [[''id'', ''ssn'']]
    = Some (Inr (), ?out, ?st)"
    unfolding l w0(5) by (rule run0)
  from tokenize_data_success [OF g ld i ne ok run] obtain w1 where
    t: "tokenize_data (\<lambda>i. []) ''in.csv'' ''out.csv'' [''ssn''] ''sequential'' ''map.csv'' ?w
      = Some (Inr (), w1)"
    and f: "files w1 = (files ?w)(''out.csv'' \<mapsto> ?out,
        ''map.csv'' \<mapsto> save_token_map (token_map ?st))"
    and o1: "open_fault w1 = open_fault ?w"
    and wf1: "write_fault w1 = write_fault ?w"
    by blast
  from f have fo: "files w1 ''out.csv'' = Some ?out"
    and fm: "files w1 ''map.csv'' = Some [[''1'', ''a''], [''2'', ''b'']]"
    by (simp_all add: save_token_map_def)
  have d: "distinct [''ssn'']" by simp
  have p1: "''out.csv'' \<noteq> ''map.csv''" and p2: "''back.csv'' \<noteq> ''out.csv''" by simp_all
  have io: "open_fault w1 ''out.csv'' = None" "write_fault w1 ''back.csv'' = None"
    by (simp_all add: o1 wf1 w0)
  have nocoll: "\<forall>r\<in>set (dict_reader [''id'', ''ssn''] ?rs). \<forall>k c.
      dict_get (cells r) k = Some c \<longrightarrow>
        lookup_once (fst (load_token_map (the (files w1 ''map.csv'')) [] []))
          (Some (csv_field c)) = Some (csv_field c)"
    by (auto simp: fm lookup_once_def dict_get_def dict_reader_def dict_reader_row_def
        split: if_splits)
  from tokenize_detokenize_roundtrip [OF t i d p1 p2 io nocoll]
  obtain w2 lines where
    dt: "detokenize_data ''out.csv'' ''back.csv'' ''map.csv'' w1 = (Inr (), w2)"
    and fb: "files w2 ''back.csv'' = Some ([''id'', ''ssn''] # lines)"
    and same: "distinct [''id'', ''ssn''] \<longrightarrow>
        lines = map (\<lambda>r. r @ replicate (length [''id'', ''ssn''] - length r) [])
                  (filter (\<lambda>r. r \<noteq> []) ?rs)"
    by blast
  from same have "lines = ?rs" by simp
  with fb have "files w2 ''back.csv'' = Some ([''id'', ''ssn''] # ?rs)" by simp
  with t fo fm dt show ?thesis by blast
qed

text \<open>
  The claim as stated, for every list of records, fails for a row shorter than the
  header. The missing \<^verbatim>\<open>ssn\<close> of \<^verbatim>\<open>r1\<close> is \<^verbatim>\<open>None\<close> in the record; it gets the token \<^verbatim>\<open>1\<close>, the
  mapping file stores its value as the empty string, and detokenization restores the
  empty string: the restored record differs from the original one in the tokenized
  column. No value of the input is a token.
\<close>

theorem short_row_roundtrip_counterexample:
  "\<exists>w1 w2. tokenize_data (\<lambda>i. []) ''in.csv'' ''out.csv'' [''ssn''] ''sequential'' ''map.csv''
        (disk [''in.csv'' \<mapsto> [[''id'', ''ssn''], [''r1'']]])
      = Some (Inr (), w1)
    \<and> files w1 ''out.csv'' = Some [[''id'', ''ssn''], [''r1'', ''1'']]
    \<and> files w1 ''map.csv'' = Some [[''1'', '''']]
    \<and> detokenize_data ''out.csv'' ''back.csv'' ''map.csv'' w1 = (Inr (), w2)
    \<and> files w2 ''back.csv'' = Some [[''id'', ''ssn''], [''r1'', '''']]
    \<and> dict_get (cells (dict_reader [''id'', ''ssn''] [[''r1'']] ! 0)) ''ssn'' = Some None
    \<and> dict_get (cells (dict_reader [''id'', ''ssn''] [[''r1'', '''']] ! 0)) ''ssn''
        = Some (Some '''')"
proof -
  let ?rs = "[[''r1'']]"
  let ?w = "disk [''in.csv'' \<mapsto> [''id'', ''ssn''] # ?rs]"
  let ?st = "\<lparr>token_map = [(''1'', None)], next_draw = 0, warnings = []\<rparr>"
  let ?out = "[[''id'', ''ssn''], [''r1'', ''1'']]"
  have w0: "files ?w = [''in.csv'' \<mapsto> [''id'', ''ssn''] # ?rs]" "open_fault ?w = Map.empty"
    "read_fault ?w = Map.empty" "write_fault ?w = Map.empty" "rng ?w = 0"
    by (simp_all add: disk_def)
  have l: "loaded_map ?w ''map.csv'' = []" and ld: "load_error ?w ''map.csv'' = None"
    by (simp_all add: loaded_map_def load_error_def w0)
  have g: "select_generator ''sequential'' = Inr GenSequential"
    by (simp add: select_generator_def)
  have i: "files ?w ''in.csv'' = Some ([''id'', ''ssn''] # ?rs)" by (simp add: w0)
  have ne: "''in.csv'' \<noteq> ''out.csv''" by simp
  have ok: "open_fault ?w ''in.csv'' = None" "read_fault ?w ''in.csv'' = None"
    "write_fault ?w ''out.csv'' = None" "write_fault ?w ''map.csv'' = None"
    by (simp_all add: w0)
  have run0: "tokenize_rows GenSequential (\<lambda>i. []) [''ssn''] [''id'', ''ssn'']
      (dict_reader [''id'', ''ssn''] ?rs)
      \<lparr>token_map = [], next_draw = 0, warnings = []\<rparr> [[''id'', ''ssn'']]
    = Some (Inr (), ?out, ?st)"
    by code_simp
  have run: "tokenize_rows GenSequential (\<lambda>i. []) [''ssn''] [''id'', ''ssn'']
      (dict_reader [''id'', ''ssn''] ?rs)
      \<lparr>token_map = loaded_map ?w ''map.csv'', next_draw = rng ?w, warnings = []\<rparr>
      [[''id'', ''ssn'']]
    = Some (Inr (), ?out, ?st)"
    unfolding l w0(5) by (rule run0)
  from tokenize_data_success [OF g ld i ne ok run] obtain w1 where
    t: "tokenize_data (\<lambda>i. []) ''in.csv'' ''out.csv'' [''ssn''] ''sequential'' ''map.csv'' ?w
      = Some (Inr (), w1)"
    and f: "files w1 = (files ?w)(''out.csv'' \<mapsto> ?out,
        ''map.csv'' \<mapsto> save_token_map (token_map ?st))"
    and o1: "open_fault w1 = open_fault ?w"
    and r1: "read_fault w1 = (read_fault ?w)(''out.csv'' := None, ''map.csv'' := None)"
    and wf1: "write_fault w1 = write_fault ?w"
    by blast
  from f have fo: "files w1 ''out.csv'' = Some ([''id'', ''ssn''] # [[''r1'', ''1'']])"
    and fm: "files w1 ''map.csv'' = Some [[''1'', '''']]"
    by (simp_all add: save_token_map_def)
  have mok: "open_fault w1 ''map.csv'' = None" "read_fault w1 ''map.csv'' = None"
    and iok: "open_fault w1 ''out.csv'' = None" "read_fault w1 ''out.csv'' = None"
    and wok: "write_fault w1 ''back.csv'' = None"
    by (simp_all add: o1 r1 wf1 w0)
  have dr: "detokenize_rows (fst (load_token_map [[''1'', '''']] [] [])) [''id'', ''ssn'']
      (dict_reader [''id'', ''ssn''] [[''r1'', ''1'']]) [[''id'', ''ssn'']]
    = (Inr (), [[''id'', ''ssn''], [''r1'', '''']])"
    by code_simp
  have ne2: "''out.csv'' \<noteq> ''back.csv''" by simp
  from detokenize_data_success [OF fm mok fo iok wok ne2 dr] obtain w2 where
    dt: "detokenize_data ''out.csv'' ''back.csv'' ''map.csv'' w1 = (Inr (), w2)"
    and f2: "files w2 = (files w1)(''back.csv'' \<mapsto> [[''id'', ''ssn''], [''r1'', '''']])"
    by blast
  from f2 have fb: "files w2 ''back.csv'' = Some [[''id'', ''ssn''], [''r1'', '''']]" by simp
  have c1: "dict_get (cells (dict_reader [''id'', ''ssn''] [[''r1'']] ! 0)) ''ssn'' = Some None"
    by code_simp
  have c2: "dict_get (cells (dict_reader [''id'', ''ssn''] [[''r1'', '''']] ! 0)) ''ssn''
        = Some (Some '''')"
    by code_simp
  from fo have fo': "files w1 ''out.csv'' = Some [[''id'', ''ssn''], [''r1'', ''1'']]" .
  from t fo' fm dt fb c1 c2 show ?thesis by blast
qed

section \<open>What tokenization leaves unchanged\<close>

lemma tokenize_row_present:
  "tokenize_row g draws cols r st = Some (r', st') \<Longrightarrow> c \<in> set cols \<Longrightarrow> dict_get r c \<noteq> None
     \<Longrightarrow> \<exists>t. dict_get r' c = Some (Some t)"
proof (induction cols arbitrary: r st)
  case Nil
  then show ?case by simp
next
  case (Cons h cols)
  show ?case
  proof (cases "dict_get r h")
    case None
    with Cons.prems have "h \<noteq> c" by auto
    with None Cons.prems Cons.IH [of r "st\<lparr>warnings := warnings st @ [WarnColumnNotFound h]\<rparr>"]
    show ?thesis by simp
  next
    case (Some v)
    with Cons.prems obtain t st1 where
      rest: "tokenize_row g draws cols (dict_set r h (Some t)) st1 = Some (r', st')"
      by (auto split: option.splits)
    show ?thesis
    proof (cases "c \<in> set cols")
      case True
      from Cons.prems(3) have "dict_get (dict_set r h (Some t)) c \<noteq> None"
        by (simp add: dict_get_set)
      from Cons.IH [OF rest True this] show ?thesis .
    next
      case False
      with Cons.prems have "h = c" by simp
      with tokenize_row_frame [OF rest False] show ?thesis by (simp add: dict_get_set)
    qed
  qed
qed

lemma tokenize_rows_frame:
  "tokenize_rows g draws cols fns rows st out = Some (Inr (), out', st') \<Longrightarrow>
     \<exists>lines. out' = out @ lines \<and> length lines = length rows
       \<and> (\<forall>i<length rows. length (lines ! i) = length fns
             \<and> (\<forall>p<length fns. fns ! p \<notin> set cols \<longrightarrow>
                   lines ! i ! p = (case dict_get (cells (rows ! i)) (fns ! p) of
                                      Some c \<Rightarrow> csv_field c | None \<Rightarrow> [])))"
proof (induction rows arbitrary: st out)
  case Nil
  then show ?case by simp
next
  case (Cons r rows)
  from Cons.prems obtain d st1 where
    row: "tokenize_row g draws cols (cells r) st = Some (d, st1)"
    by (auto split: option.splits)
  from Cons.prems row obtain line where
    w: "writerow fns (Row d (rest r)) = Inr line"
    and rest: "tokenize_rows g draws cols fns rows st1 (out @ [line]) = Some (Inr (), out', st')"
    by (auto split: sum.splits)
  from Cons.IH [OF rest] obtain lines where
    o: "out' = (out @ [line]) @ lines" and l: "length lines = length rows"
    and f: "\<forall>i<length rows. length (lines ! i) = length fns
             \<and> (\<forall>p<length fns. fns ! p \<notin> set cols \<longrightarrow>
                   lines ! i ! p = (case dict_get (cells (rows ! i)) (fns ! p) of
                                      Some c \<Rightarrow> csv_field c | None \<Rightarrow> []))"
    by blast
  from writerow_line [OF w] have ll: "length line = length fns"
    and lf: "\<forall>p<length fns. fns ! p \<notin> set cols \<longrightarrow>
        line ! p = (case dict_get (cells r) (fns ! p) of Some c \<Rightarrow> csv_field c | None \<Rightarrow> [])"
    using tokenize_row_frame [OF row] by simp_all
  have "\<forall>i<length (r # rows). length ((line # lines) ! i) = length fns
             \<and> (\<forall>p<length fns. fns ! p \<notin> set cols \<longrightarrow>
                   (line # lines) ! i ! p = (case dict_get (cells ((r # rows) ! i)) (fns ! p) of
                                      Some c \<Rightarrow> csv_field c | None \<Rightarrow> []))"
  proof (intro allI impI)
    fix i assume "i < length (r # rows)"
    then show "length ((line # lines) ! i) = length fns
             \<and> (\<forall>p<length fns. fns ! p \<notin> set cols \<longrightarrow>
                   (line # lines) ! i ! p = (case dict_get (cells ((r # rows) ! i)) (fns ! p) of
                                      Some c \<Rightarrow> csv_field c | None \<Rightarrow> []))"
      using ll lf f by (cases i) simp_all
  qed
  with o l show ?case by (intro exI [of _ "line # lines"]) simp
qed

lemma tokenize_data_frame:
  assumes run: "tokenize_data draws input_file output_file cols token_method token_map_file w
      = Some (Inr (), w')"
    and ne: "output_file \<noteq> token_map_file"
  shows "\<exists>fieldnames rs lines.
      files w input_file = Some (fieldnames # rs)
      \<and> files w' output_file = Some (fieldnames # lines)
      \<and> length lines = length (dict_reader fieldnames rs)
      \<and> (\<forall>i<length lines. length (lines ! i) = length fieldnames
            \<and> (\<forall>p<length fieldnames. fieldnames ! p \<notin> set cols \<longrightarrow>
                  lines ! i ! p =
                    (case dict_get (cells (dict_reader fieldnames rs ! i)) (fieldnames ! p) of
                       Some c \<Rightarrow> csv_field c | None \<Rightarrow> [])))"
proof -
  from tokenize_data_Inr [OF run] obtain g fieldnames rs out st where
    i: "files w input_file = Some (fieldnames # rs)"
    and rows: "tokenize_rows g draws cols fieldnames (dict_reader fieldnames rs)
           \<lparr>token_map = loaded_map w token_map_file, next_draw = rng w, warnings = []\<rparr>
           [fieldnames] = Some (Inr (), out, st)"
    and f: "files w' = (files w)(output_file \<mapsto> out,
                               token_map_file \<mapsto> save_token_map (token_map st))"
    by blast
  from tokenize_rows_frame [OF rows] obtain lines where
    o: "out = [fieldnames] @ lines" and l: "length lines = length (dict_reader fieldnames rs)"
    and fr: "\<forall>i<length (dict_reader fieldnames rs). length (lines ! i) = length fieldnames
            \<and> (\<forall>p<length fieldnames. fieldnames ! p \<notin> set cols \<longrightarrow>
                  lines ! i ! p =
                    (case dict_get (cells (dict_reader fieldnames rs ! i)) (fieldnames ! p) of
                       Some c \<Rightarrow> csv_field c | None \<Rightarrow> []))"
    by blast
  from f ne o have "files w' output_file = Some (fieldnames # lines)" by simp
  with i l fr show ?thesis by (intro exI [of _ fieldnames] exI [of _ rs] exI [of _ lines]) simp
qed

lemma tokenize_rows_warnings:
  "tokenize_rows g draws cols fns rows st out = Some (Inr (), out', st') \<Longrightarrow>
     warnings st' = warnings st @ concat (map (\<lambda>r. map WarnColumnNotFound
         (filter (\<lambda>c. dict_get (cells r) c = None) cols)) rows)"
proof (induction rows arbitrary: st out)
  case Nil
  then show ?case by simp
next
  case (Cons r rows)
  from Cons.prems obtain d st1 where
    row: "tokenize_row g draws cols (cells r) st = Some (d, st1)"
    by (auto split: option.splits)
  from Cons.prems row obtain line where
    rest: "tokenize_rows g draws cols fns rows st1 (out @ [line]) = Some (Inr (), out', st')"
    by (auto split: sum.splits)
  from Cons.IH [OF rest] tokenize_row_warnings [OF row] show ?case by simp
qed

lemma tokenize_rows_Inr_writable:
  "tokenize_rows g draws cols fns rows st out = Some (Inr (), out', st')
     \<Longrightarrow> \<forall>r\<in>set rows. writable fns r"
proof (induction rows arbitrary: st out)
  case Nil
  then show ?case by simp
next
  case (Cons r rows)
  from Cons.prems obtain d st1 where
    row: "tokenize_row g draws cols (cells r) st = Some (d, st1)"
    by (auto split: option.splits)
  from Cons.prems row obtain line where
    w: "writerow fns (Row d (rest r)) = Inr line"
    and rest: "tokenize_rows g draws cols fns rows st1 (out @ [line]) = Some (Inr (), out', st')"
    by (auto split: sum.splits)
  from writerow_line [OF w] tokenize_row_keys [OF row] have "writable fns r"
    by (simp add: writable_def)
  with Cons.IH [OF rest] show ?case by simp
qed

lemma tokenize_data_emits:
  assumes m: "token_method = ''uuid'' \<and> inj draws \<or> token_method = ''sequential''"
    and ld: "load_error w token_map_file = None"
    and inp: "files w input_file = Some (fieldnames # rs)"
    and ne: "input_file \<noteq> output_file" and p: "output_file \<noteq> token_map_file"
    and ok: "open_fault w input_file = None" "read_fault w input_file = None"
      "write_fault w output_file = None" "write_fault w token_map_file = None"
    and rows: "\<forall>r\<in>set rs. length r \<le> length fieldnames"
  shows "\<exists>w' lines.
      tokenize_data draws input_file output_file cols token_method token_map_file w
        = Some (Inr (), w')
      \<and> files w' output_file = Some (fieldnames # lines)
      \<and> length lines = length (dict_reader fieldnames rs)
      \<and> (\<forall>i<length lines. length (lines ! i) = length fieldnames
            \<and> (\<forall>p<length fieldnames. fieldnames ! p \<notin> set cols \<longrightarrow>
                  lines ! i ! p =
                    (case dict_get (cells (dict_reader fieldnames rs ! i)) (fieldnames ! p) of
                       Some c \<Rightarrow> csv_field c | None \<Rightarrow> [])))
      \<and> log w' = log w @ load_log w token_map_file
          @ concat (map (\<lambda>r. map WarnColumnNotFound
              (filter (\<lambda>c. dict_get (cells r) c = None) cols)) (dict_reader fieldnames rs))"
proof -
  from m obtain g where g: "select_generator token_method = Inr g"
    and t: "g = GenSequential \<or> inj draws"
    by (auto simp: select_generator_def)
  let ?st = "\<lparr>token_map = loaded_map w token_map_file, next_draw = rng w, warnings = []\<rparr>"
  from tokenize_rows_total [OF t rows, of cols ?st "[fieldnames]"] obtain out st where
    run: "tokenize_rows g draws cols fieldnames (dict_reader fieldnames rs) ?st [fieldnames]
      = Some (Inr (), out, st)"
    by auto
  from tokenize_data_success [OF g ld inp ne ok run] obtain w' where
    t: "tokenize_data draws input_file output_file cols token_method token_map_file w
        = Some (Inr (), w')"
    and f: "files w' = (files w)(output_file \<mapsto> out,
                               token_map_file \<mapsto> save_token_map (token_map st))"
    and l: "log w' = log w @ load_log w token_map_file @ warnings st"
    by blast
  from tokenize_rows_frame [OF run] obtain lines where
    o: "out = [fieldnames] @ lines" and len: "length lines = length (dict_reader fieldnames rs)"
    and fr: "\<forall>i<length (dict_reader fieldnames rs). length (lines ! i) = length fieldnames
            \<and> (\<forall>p<length fieldnames. fieldnames ! p \<notin> set cols \<longrightarrow>
                  lines ! i ! p =
                    (case dict_get (cells (dict_reader fieldnames rs ! i)) (fieldnames ! p) of
                       Some c \<Rightarrow> csv_field c | None \<Rightarrow> []))"
    by blast
  from f p o have fo: "files w' output_file = Some (fieldnames # lines)" by simp
  from tokenize_rows_warnings [OF run] l
  have lg: "log w' = log w @ load_log w token_map_file
          @ concat (map (\<lambda>r. map WarnColumnNotFound
              (filter (\<lambda>c. dict_get (cells r) c = None) cols)) (dict_reader fieldnames rs))"
    by simp
  from t fo len fr lg show ?thesis
    by (intro exI [of _ w'] exI [of _ lines]) simp
qed

lemma tokenize_data_long_row:
  assumes inp: "files w input_file = Some (fieldnames # rs)"
    and long: "\<exists>r\<in>set rs. length fieldnames < length r"
  shows "tokenize_data draws input_file output_file cols token_method token_map_file w
      \<noteq> Some (Inr (), w')"
proof
  assume "tokenize_data draws input_file output_file cols token_method token_map_file w
      = Some (Inr (), w')"
  from tokenize_data_Inr [OF this] inp obtain g out st where
    run: "tokenize_rows g draws cols fieldnames (dict_reader fieldnames rs)
           \<lparr>token_map = loaded_map w token_map_file, next_draw = rng w, warnings = []\<rparr>
           [fieldnames] = Some (Inr (), out, st)"
    by auto
  from long obtain r where r: "r \<in> set rs" and l: "length fieldnames < length r" by blast
  from l have "r \<noteq> []" by auto
  with r have "dict_reader_row fieldnames r \<in> set (dict_reader fieldnames rs)"
    by (simp add: dict_reader_def)
  with tokenize_rows_Inr_writable [OF run]
  have "writable fieldnames (dict_reader_row fieldnames r)" by blast
  then have "length r \<le> length fieldnames" by (simp only: writable_dict_reader_row)
  with l show False by simp
qed

lemma tokenize_rows_abort:
  assumes t: "g = GenSequential \<or> inj draws"
  shows "\<exists>r\<in>set rows. \<not> writable fns r \<Longrightarrow>
     \<exists>lines st'. tokenize_rows g draws cols fns rows st out
         = Some (Inl FieldsNotInFieldnames, out @ lines, st')
       \<and> length lines = length (takeWhile (writable fns) rows)"
proof (induction rows arbitrary: st out)
  case Nil
  then show ?case by simp
next
  case (Cons r rows)
  from tokenize_row_returns [OF t, of cols "cells r" st]
  obtain d st1 where row: "tokenize_row g draws cols (cells r) st = Some (d, st1)" by auto
  note keys = tokenize_row_keys [OF row]
  show ?case
  proof (cases "writable fns r")
    case True
    with keys have "writable fns (Row d (rest r))" by (simp add: writable_def)
    from writerow_writable [OF this] obtain line where
      w: "writerow fns (Row d (rest r)) = Inr line" by blast
    from True Cons.prems have "\<exists>r\<in>set rows. \<not> writable fns r" by auto
    from Cons.IH [OF this, of st1 "out @ [line]"] obtain lines st' where
      "tokenize_rows g draws cols fns rows st1 (out @ [line])
         = Some (Inl FieldsNotInFieldnames, (out @ [line]) @ lines, st')"
      and "length lines = length (takeWhile (writable fns) rows)"
      by blast
    with row w True show ?thesis
      by (intro exI [of _ "line # lines"] exI [of _ st']) simp
  next
    case False
    with keys have "writerow fns (Row d (rest r)) = Inl FieldsNotInFieldnames"
      by (auto simp: writable_def writerow_def)
    with row False show ?thesis
      by (intro exI [of _ "[]"] exI [of _ st1]) simp
  qed
qed

lemma tokenize_data_aborts:
  assumes m: "token_method = ''uuid'' \<and> inj draws \<or> token_method = ''sequential''"
    and ld: "load_error w token_map_file = None"
    and inp: "files w input_file = Some (fieldnames # rs)"
    and ne: "input_file \<noteq> output_file" and p: "output_file \<noteq> token_map_file"
    and ok: "open_fault w input_file = None" "write_fault w output_file = None"
    and long: "\<exists>r\<in>set rs. length fieldnames < length r"
  shows "\<exists>w' lines.
      tokenize_data draws input_file output_file cols token_method token_map_file w
        = Some (Inl FieldsNotInFieldnames, w')
      \<and> files w' output_file = Some (fieldnames # lines)
      \<and> length lines = length (takeWhile (writable fieldnames) (dict_reader fieldnames rs))
      \<and> length lines < length (dict_reader fieldnames rs)
      \<and> files w' token_map_file = files w token_map_file"
proof -
  from m obtain g where g: "select_generator token_method = Inr g"
    and t: "g = GenSequential \<or> inj draws"
    by (auto simp: select_generator_def)
  let ?rows = "dict_reader fieldnames rs"
  let ?st = "\<lparr>token_map = loaded_map w token_map_file, next_draw = rng w, warnings = []\<rparr>"
  from long obtain r where r: "r \<in> set rs" and l: "length fieldnames < length r" by blast
  from l have "r \<noteq> []" by auto
  with r have mem: "dict_reader_row fieldnames r \<in> set ?rows" by (simp add: dict_reader_def)
  from l have nw: "\<not> writable fieldnames (dict_reader_row fieldnames r)"
    by (simp add: writable_dict_reader_row)
  from mem nw have ex: "\<exists>r\<in>set ?rows. \<not> writable fieldnames r" by blast
  from tokenize_rows_abort [OF t ex, of cols ?st "[fieldnames]"] obtain lines st' where
    run: "tokenize_rows g draws cols fieldnames ?rows ?st [fieldnames]
        = Some (Inl FieldsNotInFieldnames, [fieldnames] @ lines, st')"
    and len: "length lines = length (takeWhile (writable fieldnames) ?rows)"
    by blast
  from tokenize_data_row_failure [OF g ld inp ne ok run] obtain w' where
    t': "tokenize_data draws input_file output_file cols token_method token_map_file w
        = Some (Inl FieldsNotInFieldnames, w')"
    and f: "files w' = (files w)(output_file \<mapsto> [fieldnames] @ lines)"
    by blast
  from f p have fo: "files w' output_file = Some (fieldnames # lines)"
    and fm: "files w' token_map_file = files w token_map_file"
    by simp_all
  from ex have "takeWhile (writable fieldnames) ?rows \<noteq> ?rows"
    by (metis takeWhile_eq_all_conv)
  with length_takeWhile_le [of "writable fieldnames" ?rows]
  have "length (takeWhile (writable fieldnames) ?rows) < length ?rows"
    by (metis le_neq_implies_less takeWhile_eq_take take_all_iff linorder_not_less)
  with len have lt: "length lines < length ?rows" by simp
  from t' fo len lt fm show ?thesis
    by (intro exI [of _ w'] exI [of _ lines]) simp
qed

text \<open>
  C8, as the code has it. Tokenizing a record (lines 124-134) keeps its column names and
  their order, and the value of every column that is not configured. A configured column
  that the record does not have is logged as a warning, stays absent, and does not stop
  the loop: the other configured columns are still replaced by tokens, and the loop
  returns whenever the generator does (always for the sequential strategy, and for the
  UUID strategy when no UUID is drawn twice). \<^verbatim>\<open>DictWriter.writerow\<close> then writes the record
  when it came from a row that is not longer than the header: the row written has one
  field for each field name of the header, in the header's order, and under every column
  that is not configured the field the record had. For a record of a longer row it raises
  \<^verbatim>\<open>ValueError\<close> (line 136).

  For the loop and the files: when no row is longer than the header (and the strategy
  is known, no UUID is drawn twice, the files can be opened), the loop writes one row
  for each record and \<^verbatim>\<open>tokenize_data\<close> returns normally, having written the header of the
  input file as the header of the output file, one row for each record with these
  fields, and one warning for each configured column that a record does not have. Every
  run that returns normally has written such a file. A run on an input file with a row
  longer than the header does not return normally: it raises the \<^verbatim>\<open>ValueError\<close> after
  having written the header and the rows of the records before the first such row, and
  it leaves the mapping file as it was.
\<close>

theorem tokenization_frame_effect:
  "(g = GenSequential \<or> inj draws \<longrightarrow> (\<exists>r' st'. tokenize_row g draws cols r st = Some (r', st')))
   \<and> (\<forall>r' st'. tokenize_row g draws cols r st = Some (r', st') \<longrightarrow>
        dict_keys r' = dict_keys r
        \<and> (\<forall>k. k \<notin> set cols \<longrightarrow> dict_get r' k = dict_get r k)
        \<and> (\<forall>c\<in>set cols. dict_get r c = None \<longrightarrow>
              dict_get r' c = None \<and> WarnColumnNotFound c \<in> set (warnings st'))
        \<and> (\<forall>c\<in>set cols. dict_get r c \<noteq> None \<longrightarrow> (\<exists>t. dict_get r' c = Some (Some t)))
        \<and> warnings st' =
            warnings st @ map WarnColumnNotFound (filter (\<lambda>c. dict_get r c = None) cols)
        \<and> (surplus = [] \<and> set (dict_keys r) \<subseteq> set fns \<longrightarrow>
              (\<exists>line. writerow fns (Row r' surplus) = Inr line
                 \<and> length line = length fns
                 \<and> (\<forall>p<length fns. fns ! p \<notin> set cols \<longrightarrow>
                       line ! p = (case dict_get r (fns ! p) of
                                     Some c \<Rightarrow> csv_field c | None \<Rightarrow> []))))
        \<and> (surplus \<noteq> [] \<longrightarrow> writerow fns (Row r' surplus) = Inl FieldsNotInFieldnames))
   \<and> ((g = GenSequential \<or> inj draws) \<and> (\<forall>r\<in>set rows. writable fns r) \<longrightarrow>
        (\<exists>lines st'. tokenize_rows g draws cols fns rows st out = Some (Inr (), out @ lines, st')
           \<and> length lines = length rows
           \<and> (\<forall>i<length rows. length (lines ! i) = length fns
                 \<and> (\<forall>p<length fns. fns ! p \<notin> set cols \<longrightarrow>
                       lines ! i ! p = (case dict_get (cells (rows ! i)) (fns ! p) of
                                          Some c \<Rightarrow> csv_field c | None \<Rightarrow> [])))
           \<and> warnings st' = warnings st @ concat (map (\<lambda>r. map WarnColumnNotFound
                 (filter (\<lambda>c. dict_get (cells r) c = None) cols)) rows)))
   \<and> ((token_method = ''uuid'' \<and> inj draws \<or> token_method = ''sequential'')
        \<and> load_error w token_map_file = None
        \<and> files w input_file = Some (fieldnames # rs)
        \<and> input_file \<noteq> output_file \<and> output_file \<noteq> token_map_file
        \<and> open_fault w input_file = None \<and> read_fault w input_file = None
        \<and> write_fault w output_file = None \<and> write_fault w token_map_file = None
        \<and> (\<forall>r\<in>set rs. length r \<le> length fieldnames) \<longrightarrow>
        (\<exists>w' lines.
           tokenize_data draws input_file output_file cols token_method token_map_file w
             = Some (Inr (), w')
           \<and> files w' output_file = Some (fieldnames # lines)
           \<and> length lines = length (dict_reader fieldnames rs)
           \<and> (\<forall>i<length lines. length (lines ! i) = length fieldnames
                 \<and> (\<forall>p<length fieldnames. fieldnames ! p \<notin> set cols \<longrightarrow>
                       lines ! i ! p =
                         (case dict_get (cells (dict_reader fieldnames rs ! i)) (fieldnames ! p) of
                            Some c \<Rightarrow> csv_field c | None \<Rightarrow> [])))
           \<and> log w' = log w @ load_log w token_map_file
               @ concat (map (\<lambda>r. map WarnColumnNotFound
                   (filter (\<lambda>c. dict_get (cells r) c = None) cols))
                   (dict_reader fieldnames rs))))
   \<and> (\<forall>w'. tokenize_data draws input_file output_file cols token_method token_map_file w
          = Some (Inr (), w') \<and> output_file \<noteq> token_map_file \<longrightarrow>
        (\<exists>fieldnames rows lines.
           files w input_file = Some (fieldnames # rows)
           \<and> files w' output_file = Some (fieldnames # lines)
           \<and> length lines = length (dict_reader fieldnames rows)
           \<and> (\<forall>i<length lines. length (lines ! i) = length fieldnames
                 \<and> (\<forall>p<length fieldnames. fieldnames ! p \<notin> set cols \<longrightarrow>
                       lines ! i ! p =
                         (case dict_get (cells (dict_reader fieldnames rows ! i)) (fieldnames ! p) of
                            Some c \<Rightarrow> csv_field c | None \<Rightarrow> [])))))
   \<and> (files w input_file = Some (fieldnames # rs)
        \<and> (\<exists>r\<in>set rs. length fieldnames < length r) \<longrightarrow>
        (\<forall>w'. tokenize_data draws input_file output_file cols token_method token_map_file w
           \<noteq> Some (Inr (), w')))
   \<and> ((token_method = ''uuid'' \<and> inj draws \<or> token_method = ''sequential'')
        \<and> load_error w token_map_file = None
        \<and> files w input_file = Some (fieldnames # rs)
        \<and> input_file \<noteq> output_file \<and> output_file \<noteq> token_map_file
        \<and> open_fault w input_file = None \<and> write_fault w output_file = None
        \<and> (\<exists>r\<in>set rs. length fieldnames < length r) \<longrightarrow>
        (\<exists>w' lines.
           tokenize_data draws input_file output_file cols token_method token_map_file w
             = Some (Inl FieldsNotInFieldnames, w')
           \<and> files w' output_file = Some (fieldnames # lines)
           \<and> length lines
               = length (takeWhile (writable fieldnames) (dict_reader fieldnames rs))
           \<and> length lines < length (dict_reader fieldnames rs)
           \<and> files w' token_map_file = files w token_map_file))"
proof -
  have a1: "g = GenSequential \<or> inj draws \<longrightarrow>
      (\<exists>r' st'. tokenize_row g draws cols r st = Some (r', st'))"
    using tokenize_row_returns [of g draws cols r st] by auto
  have a2: "\<forall>r' st'. tokenize_row g draws cols r st = Some (r', st') \<longrightarrow>
        dict_keys r' = dict_keys r
        \<and> (\<forall>k. k \<notin> set cols \<longrightarrow> dict_get r' k = dict_get r k)
        \<and> (\<forall>c\<in>set cols. dict_get r c = None \<longrightarrow>
              dict_get r' c = None \<and> WarnColumnNotFound c \<in> set (warnings st'))
        \<and> (\<forall>c\<in>set cols. dict_get r c \<noteq> None \<longrightarrow> (\<exists>t. dict_get r' c = Some (Some t)))
        \<and> warnings st' =
            warnings st @ map WarnColumnNotFound (filter (\<lambda>c. dict_get r c = None) cols)
        \<and> (surplus = [] \<and> set (dict_keys r) \<subseteq> set fns \<longrightarrow>
              (\<exists>line. writerow fns (Row r' surplus) = Inr line
                 \<and> length line = length fns
                 \<and> (\<forall>p<length fns. fns ! p \<notin> set cols \<longrightarrow>
                       line ! p = (case dict_get r (fns ! p) of
                                     Some c \<Rightarrow> csv_field c | None \<Rightarrow> []))))
        \<and> (surplus \<noteq> [] \<longrightarrow> writerow fns (Row r' surplus) = Inl FieldsNotInFieldnames)"
  proof (intro allI impI conjI ballI)
    fix r' st'
    assume run: "tokenize_row g draws cols r st = Some (r', st')"
    show keys: "dict_keys r' = dict_keys r" by (rule tokenize_row_keys [OF run])
    show w: "warnings st' =
        warnings st @ map WarnColumnNotFound (filter (\<lambda>c. dict_get r c = None) cols)"
      by (rule tokenize_row_warnings [OF run])
    {
      fix k assume "k \<notin> set cols"
      then show "dict_get r' k = dict_get r k" by (rule tokenize_row_frame [OF run])
    }
    {
      fix c assume c: "c \<in> set cols" and n: "dict_get r c = None"
      from n keys show "dict_get r' c = None" by (simp add: dict_get_None_iff)
      from c n show "WarnColumnNotFound c \<in> set (warnings st')" unfolding w by simp
    }
    {
      fix c assume "c \<in> set cols" "dict_get r c \<noteq> None"
      then show "\<exists>t. dict_get r' c = Some (Some t)" by (rule tokenize_row_present [OF run])
    }
    {
      assume s: "surplus = [] \<and> set (dict_keys r) \<subseteq> set fns"
      with keys have "writable fns (Row r' surplus)" by (simp add: writable_def)
      from writerow_writable [OF this]
      have l: "writerow fns (Row r' surplus) =
          Inr (map (\<lambda>k. case dict_get r' k of Some c \<Rightarrow> csv_field c | None \<Rightarrow> []) fns)" .
      have "\<forall>p<length fns. fns ! p \<notin> set cols \<longrightarrow>
          map (\<lambda>k. case dict_get r' k of Some c \<Rightarrow> csv_field c | None \<Rightarrow> []) fns ! p
            = (case dict_get r (fns ! p) of Some c \<Rightarrow> csv_field c | None \<Rightarrow> [])"
        using tokenize_row_frame [OF run] by simp
      with l show "\<exists>line. writerow fns (Row r' surplus) = Inr line
                 \<and> length line = length fns
                 \<and> (\<forall>p<length fns. fns ! p \<notin> set cols \<longrightarrow>
                       line ! p = (case dict_get r (fns ! p) of
                                     Some c \<Rightarrow> csv_field c | None \<Rightarrow> []))"
        by simp
    }
    {
      assume "surplus \<noteq> []"
      then show "writerow fns (Row r' surplus) = Inl FieldsNotInFieldnames"
        by (simp add: writerow_def)
    }
  qed
  have b: "(g = GenSequential \<or> inj draws) \<and> (\<forall>r\<in>set rows. writable fns r) \<longrightarrow>
        (\<exists>lines st'. tokenize_rows g draws cols fns rows st out = Some (Inr (), out @ lines, st')
           \<and> length lines = length rows
           \<and> (\<forall>i<length rows. length (lines ! i) = length fns
                 \<and> (\<forall>p<length fns. fns ! p \<notin> set cols \<longrightarrow>
                       lines ! i ! p = (case dict_get (cells (rows ! i)) (fns ! p) of
                                          Some c \<Rightarrow> csv_field c | None \<Rightarrow> [])))
           \<and> warnings st' = warnings st @ concat (map (\<lambda>r. map WarnColumnNotFound
                 (filter (\<lambda>c. dict_get (cells r) c = None) cols)) rows))"
  proof
    assume h: "(g = GenSequential \<or> inj draws) \<and> (\<forall>r\<in>set rows. writable fns r)"
    from tokenize_rows_returns [OF conjunct1 [OF h], of cols fns rows st out]
    obtain res out' st' where
      run: "tokenize_rows g draws cols fns rows st out = Some (res, out', st')"
      by auto
    from tokenize_rows_succeeds [OF run conjunct2 [OF h]] run
    have run': "tokenize_rows g draws cols fns rows st out = Some (Inr (), out', st')" by simp
    from tokenize_rows_frame [OF run'] obtain lines where
      o: "out' = out @ lines" and len: "length lines = length rows"
      and fr: "\<forall>i<length rows. length (lines ! i) = length fns
                 \<and> (\<forall>p<length fns. fns ! p \<notin> set cols \<longrightarrow>
                       lines ! i ! p = (case dict_get (cells (rows ! i)) (fns ! p) of
                                          Some c \<Rightarrow> csv_field c | None \<Rightarrow> []))"
      by blast
    from run' o len fr tokenize_rows_warnings [OF run']
    show "\<exists>lines st'. tokenize_rows g draws cols fns rows st out = Some (Inr (), out @ lines, st')
           \<and> length lines = length rows
           \<and> (\<forall>i<length rows. length (lines ! i) = length fns
                 \<and> (\<forall>p<length fns. fns ! p \<notin> set cols \<longrightarrow>
                       lines ! i ! p = (case dict_get (cells (rows ! i)) (fns ! p) of
                                          Some c \<Rightarrow> csv_field c | None \<Rightarrow> [])))
           \<and> warnings st' = warnings st @ concat (map (\<lambda>r. map WarnColumnNotFound
                 (filter (\<lambda>c. dict_get (cells r) c = None) cols)) rows)"
      by (intro exI [of _ lines] exI [of _ st']) simp
  qed
  have c: "(token_method = ''uuid'' \<and> inj draws \<or> token_method = ''sequential'')
        \<and> load_error w token_map_file = None
        \<and> files w input_file = Some (fieldnames # rs)
        \<and> input_file \<noteq> output_file \<and> output_file \<noteq> token_map_file
        \<and> open_fault w input_file = None \<and> read_fault w input_file = None
        \<and> write_fault w output_file = None \<and> write_fault w token_map_file = None
        \<and> (\<forall>r\<in>set rs. length r \<le> length fieldnames) \<longrightarrow>
        (\<exists>w' lines.
           tokenize_data draws input_file output_file cols token_method token_map_file w
             = Some (Inr (), w')
           \<and> files w' output_file = Some (fieldnames # lines)
           \<and> length lines = length (dict_reader fieldnames rs)
           \<and> (\<forall>i<length lines. length (lines ! i) = length fieldnames
                 \<and> (\<forall>p<length fieldnames. fieldnames ! p \<notin> set cols \<longrightarrow>
                       lines ! i ! p =
                         (case dict_get (cells (dict_reader fieldnames rs ! i)) (fieldnames ! p) of
                            Some c \<Rightarrow> csv_field c | None \<Rightarrow> [])))
           \<and> log w' = log w @ load_log w token_map_file
               @ concat (map (\<lambda>r. map WarnColumnNotFound
                   (filter (\<lambda>c. dict_get (cells r) c = None) cols))
                   (dict_reader fieldnames rs)))"
  proof
    assume h: "(token_method = ''uuid'' \<and> inj draws \<or> token_method = ''sequential'')
        \<and> load_error w token_map_file = None
        \<and> files w input_file = Some (fieldnames # rs)
        \<and> input_file \<noteq> output_file \<and> output_file \<noteq> token_map_file
        \<and> open_fault w input_file = None \<and> read_fault w input_file = None
        \<and> write_fault w output_file = None \<and> write_fault w token_map_file = None
        \<and> (\<forall>r\<in>set rs. length r \<le> length fieldnames)"
    then have m: "token_method = ''uuid'' \<and> inj draws \<or> token_method = ''sequential''"
      and ld: "load_error w token_map_file = None"
      and inp: "files w input_file = Some (fieldnames # rs)"
      and ne: "input_file \<noteq> output_file" and p: "output_file \<noteq> token_map_file"
      and ok: "open_fault w input_file = None" "read_fault w input_file = None"
        "write_fault w output_file = None" "write_fault w token_map_file = None"
      and rows: "\<forall>r\<in>set rs. length r \<le> length fieldnames"
      by simp_all
    show "\<exists>w' lines.
           tokenize_data draws input_file output_file cols token_method token_map_file w
             = Some (Inr (), w')
           \<and> files w' output_file = Some (fieldnames # lines)
           \<and> length lines = length (dict_reader fieldnames rs)
           \<and> (\<forall>i<length lines. length (lines ! i) = length fieldnames
                 \<and> (\<forall>p<length fieldnames. fieldnames ! p \<notin> set cols \<longrightarrow>
                       lines ! i ! p =
                         (case dict_get (cells (dict_reader fieldnames rs ! i)) (fieldnames ! p) of
                            Some c \<Rightarrow> csv_field c | None \<Rightarrow> [])))
           \<and> log w' = log w @ load_log w token_map_file
               @ concat (map (\<lambda>r. map WarnColumnNotFound
                   (filter (\<lambda>c. dict_get (cells r) c = None) cols))
                   (dict_reader fieldnames rs))"
      by (rule tokenize_data_emits [OF m ld inp ne p ok rows])
  qed
  have d: "\<forall>w'. tokenize_data draws input_file output_file cols token_method token_map_file w
          = Some (Inr (), w') \<and> output_file \<noteq> token_map_file \<longrightarrow>
        (\<exists>fieldnames rows lines.
           files w input_file = Some (fieldnames # rows)
           \<and> files w' output_file = Some (fieldnames # lines)
           \<and> length lines = length (dict_reader fieldnames rows)
           \<and> (\<forall>i<length lines. length (lines ! i) = length fieldnames
                 \<and> (\<forall>p<length fieldnames. fieldnames ! p \<notin> set cols \<longrightarrow>
                       lines ! i ! p =
                         (case dict_get (cells (dict_reader fieldnames rows ! i)) (fieldnames ! p) of
                            Some c \<Rightarrow> csv_field c | None \<Rightarrow> []))))"
    using tokenize_data_frame by blast
  have e: "files w input_file = Some (fieldnames # rs)
        \<and> (\<exists>r\<in>set rs. length fieldnames < length r) \<longrightarrow>
        (\<forall>w'. tokenize_data draws input_file output_file cols token_method token_map_file w
           \<noteq> Some (Inr (), w'))"
    using tokenize_data_long_row by blast
  have f: "(token_method = ''uuid'' \<and> inj draws \<or> token_method = ''sequential'')
        \<and> load_error w token_map_file = None
        \<and> files w input_file = Some (fieldnames # rs)
        \<and> input_file \<noteq> output_file \<and> output_file \<noteq> token_map_file
        \<and> open_fault w input_file = None \<and> write_fault w output_file = None
        \<and> (\<exists>r\<in>set rs. length fieldnames < length r) \<longrightarrow>
        (\<exists>w' lines.
           tokenize_data draws input_file output_file cols token_method token_map_file w
             = Some (Inl FieldsNotInFieldnames, w')
           \<and> files w' output_file = Some (fieldnames # lines)
           \<and> length lines
               = length (takeWhile (writable fieldnames) (dict_reader fieldnames rs))
           \<and> length lines < length (dict_reader fieldnames rs)
           \<and> files w' token_map_file = files w token_map_file)"
  proof
    assume h: "(token_method = ''uuid'' \<and> inj draws \<or> token_method = ''sequential'')
        \<and> load_error w token_map_file = None
        \<and> files w input_file = Some (fieldnames # rs)
        \<and> input_file \<noteq> output_file \<and> output_file \<noteq> token_map_file
        \<and> open_fault w input_file = None \<and> write_fault w output_file = None
        \<and> (\<exists>r\<in>set rs. length fieldnames < length r)"
    then have m: "token_method = ''uuid'' \<and> inj draws \<or> token_method = ''sequential''"
      and ld: "load_error w token_map_file = None"
      and inp: "files w input_file = Some (fieldnames # rs)"
      and ne: "input_file \<noteq> output_file" and p: "output_file \<noteq> token_map_file"
      and ok: "open_fault w input_file = None" "write_fault w output_file = None"
      and long: "\<exists>r\<in>set rs. length fieldnames < length r"
      by simp_all
    show "\<exists>w' lines.
           tokenize_data draws input_file output_file cols token_method token_map_file w
             = Some (Inl FieldsNotInFieldnames, w')
           \<and> files w' output_file = Some (fieldnames # lines)
           \<and> length lines
               = length (takeWhile (writable fieldnames) (dict_reader fieldnames rs))
           \<and> length lines < length (dict_reader fieldnames rs)
           \<and> files w' token_map_file = files w token_map_file"
      by (rule tokenize_data_aborts [OF m ld inp ne p ok long])
  qed
  from a1 a2 b c d e f show ?thesis by (intro conjI)
qed

theorem tokenization_frame_effect_witness:
  "load_error (disk [''in.csv'' \<mapsto> [[''id'', ''ssn''], [''r1'', ''a''], [''r2'']]]) ''map.csv''
     = None
   \<and> (\<exists>w' lines.
        tokenize_data (\<lambda>i. []) ''in.csv'' ''out.csv'' [''phone'', ''ssn''] ''sequential''
          ''map.csv'' (disk [''in.csv'' \<mapsto> [[''id'', ''ssn''], [''r1'', ''a''], [''r2'']]])
          = Some (Inr (), w')
        \<and> files w' ''out.csv'' = Some ([''id'', ''ssn''] # lines)
        \<and> length lines = 2
        \<and> length (lines ! 0) = 2 \<and> length (lines ! 1) = 2
        \<and> lines ! 0 ! 0 = ''r1'' \<and> lines ! 1 ! 0 = ''r2''
        \<and> log w' = [WarnColumnNotFound ''phone'', WarnColumnNotFound ''phone''])
   \<and> tokenize_row GenSequential (\<lambda>i. []) [''phone'', ''ssn'']
       [(''id'', Some ''r1''), (''ssn'', Some ''a'')]
       \<lparr>token_map = [], next_draw = 0, warnings = []\<rparr>
     = Some ([(''id'', Some ''r1''), (''ssn'', Some ''1'')],
         \<lparr>token_map = [(''1'', Some ''a'')], next_draw = 0,
           warnings = [WarnColumnNotFound ''phone'']\<rparr>)
   \<and> dict_keys [(''id'', Some ''r1''), (''ssn'', Some ''1'')]
       = dict_keys [(''id'', Some ''r1''), (''ssn'', Some ''a'')]
   \<and> (\<exists>line. writerow [''id'', ''ssn''] (Row [(''id'', Some ''r1''), (''ssn'', Some ''1'')] [])
          = Inr line \<and> length line = 2 \<and> line ! 0 = ''r1'')
   \<and> writerow [''id'', ''ssn''] (Row [(''id'', Some ''r1''), (''ssn'', Some ''1'')] [''x''])
       = Inl FieldsNotInFieldnames
   \<and> (\<forall>w'. tokenize_data (\<lambda>i. []) ''in.csv'' ''out.csv'' [''phone'', ''ssn''] ''sequential''
          ''map.csv''
          (disk [''in.csv'' \<mapsto> [[''id'', ''ssn''], [''r1'', ''a'', ''x''], [''r2'']]])
        \<noteq> Some (Inr (), w'))"
proof -
  let ?rs = "[[''r1'', ''a''], [''r2'']]"
  let ?fns = "[''id'', ''ssn'']"
  let ?cols = "[''phone'', ''ssn'']"
  let ?w = "disk [''in.csv'' \<mapsto> ?fns # ?rs]"
  have w0: "files ?w = [''in.csv'' \<mapsto> ?fns # ?rs]" "open_fault ?w = Map.empty"
    "read_fault ?w = Map.empty" "write_fault ?w = Map.empty" "rng ?w = 0" "log ?w = []"
    by (simp_all add: disk_def)
  have pre: "(''sequential'' = ''uuid'' \<and> inj (\<lambda>i::nat. []::string)
        \<or> ''sequential'' = ''sequential'')
      \<and> load_error ?w ''map.csv'' = None
      \<and> files ?w ''in.csv'' = Some (?fns # ?rs)
      \<and> ''in.csv'' \<noteq> ''out.csv'' \<and> ''out.csv'' \<noteq> ''map.csv''
      \<and> open_fault ?w ''in.csv'' = None \<and> read_fault ?w ''in.csv'' = None
      \<and> write_fault ?w ''out.csv'' = None \<and> write_fault ?w ''map.csv'' = None
      \<and> (\<forall>r\<in>set ?rs. length r \<le> length ?fns)"
    by (simp add: load_error_def w0)
  from tokenization_frame_effect [where draws = "\<lambda>i. []" and cols = ?cols
      and token_method = "''sequential''" and token_map_file = "''map.csv''"
      and input_file = "''in.csv''" and output_file = "''out.csv''" and w = ?w
      and fieldnames = ?fns and rs = ?rs,
      THEN conjunct2, THEN conjunct2, THEN conjunct2, THEN conjunct1, THEN mp, OF pre]
  obtain w' lines where
    t: "tokenize_data (\<lambda>i. []) ''in.csv'' ''out.csv'' ?cols ''sequential'' ''map.csv'' ?w
        = Some (Inr (), w')"
    and fo: "files w' ''out.csv'' = Some (?fns # lines)"
    and len: "length lines = length (dict_reader ?fns ?rs)"
    and fr: "\<forall>i<length lines. length (lines ! i) = length ?fns
        \<and> (\<forall>p<length ?fns. ?fns ! p \<notin> set ?cols \<longrightarrow>
              lines ! i ! p =
                (case dict_get (cells (dict_reader ?fns ?rs ! i)) (?fns ! p) of
                   Some c \<Rightarrow> csv_field c | None \<Rightarrow> []))"
    and lg: "log w' = log ?w @ load_log ?w ''map.csv''
        @ concat (map (\<lambda>r. map WarnColumnNotFound
            (filter (\<lambda>c. dict_get (cells r) c = None) ?cols)) (dict_reader ?fns ?rs))"
    by blast
  from len have l2: "length lines = 2" by (simp add: dict_reader_def)
  have c0: "dict_get (cells (dict_reader ?fns ?rs ! 0)) (?fns ! 0) = Some (Some ''r1'')"
    and c1: "dict_get (cells (dict_reader ?fns ?rs ! 1)) (?fns ! 0) = Some (Some ''r2'')"
    by code_simp+
  have n: "?fns ! 0 \<notin> set ?cols" by simp
  from fr l2 have f0: "length (lines ! 0) = length ?fns
        \<and> (\<forall>p<length ?fns. ?fns ! p \<notin> set ?cols \<longrightarrow>
              lines ! 0 ! p =
                (case dict_get (cells (dict_reader ?fns ?rs ! 0)) (?fns ! p) of
                   Some c \<Rightarrow> csv_field c | None \<Rightarrow> []))"
    and f1: "length (lines ! 1) = length ?fns
        \<and> (\<forall>p<length ?fns. ?fns ! p \<notin> set ?cols \<longrightarrow>
              lines ! 1 ! p =
                (case dict_get (cells (dict_reader ?fns ?rs ! 1)) (?fns ! p) of
                   Some c \<Rightarrow> csv_field c | None \<Rightarrow> []))"
    by simp_all
  from f0 have ll0: "length (lines ! 0) = 2" by simp
  from f1 have ll1: "length (lines ! 1) = 2" by simp
  from f0 [THEN conjunct2, rule_format, of 0] n c0 have x0: "lines ! 0 ! 0 = ''r1''" by simp
  from f1 [THEN conjunct2, rule_format, of 0] n c1 have x1: "lines ! 1 ! 0 = ''r2''" by simp
  have wn: "concat (map (\<lambda>r. map WarnColumnNotFound
            (filter (\<lambda>c. dict_get (cells r) c = None) ?cols)) (dict_reader ?fns ?rs))
      = [WarnColumnNotFound ''phone'', WarnColumnNotFound ''phone'']"
    by code_simp
  have "load_log ?w ''map.csv'' = []" by (simp add: load_log_def w0)
  with lg wn w0(6)
  have lg': "log w' = [WarnColumnNotFound ''phone'', WarnColumnNotFound ''phone'']" by simp
  from t fo l2 ll0 ll1 x0 x1 lg'
  have emitted: "\<exists>w' lines.
        tokenize_data (\<lambda>i. []) ''in.csv'' ''out.csv'' ?cols ''sequential'' ''map.csv'' ?w
          = Some (Inr (), w')
        \<and> files w' ''out.csv'' = Some (?fns # lines)
        \<and> length lines = 2
        \<and> length (lines ! 0) = 2 \<and> length (lines ! 1) = 2
        \<and> lines ! 0 ! 0 = ''r1'' \<and> lines ! 1 ! 0 = ''r2''
        \<and> log w' = [WarnColumnNotFound ''phone'', WarnColumnNotFound ''phone'']"
    by blast
  let ?r = "[(''id'', Some ''r1''), (''ssn'', Some ''a'')]"
  let ?r' = "[(''id'', Some ''r1''), (''ssn'', Some ''1'')]"
  let ?st = "\<lparr>token_map = [], next_draw = 0, warnings = []\<rparr>"
  have row: "tokenize_row GenSequential (\<lambda>i. []) ?cols ?r ?st
     = Some (?r', \<lparr>token_map = [(''1'', Some ''a'')], next_draw = 0,
           warnings = [WarnColumnNotFound ''phone'']\<rparr>)"
    by code_simp
  note r1 = tokenization_frame_effect [where g = GenSequential and draws = "\<lambda>i. []"
      and cols = ?cols and r = ?r and st = ?st and fns = ?fns and surplus = "[]",
      THEN conjunct2, THEN conjunct1, rule_format, OF row]
  note r2 = tokenization_frame_effect [where g = GenSequential and draws = "\<lambda>i. []"
      and cols = ?cols and r = ?r and st = ?st and fns = ?fns and surplus = "[''x'']",
      THEN conjunct2, THEN conjunct1, rule_format, OF row]
  from r1 have keys: "dict_keys ?r' = dict_keys ?r" by (rule conjunct1)
  have wr: "[] = ([]::string list) \<and> set (dict_keys ?r) \<subseteq> set ?fns"
    by (simp add: dict_keys_def)
  from r1 [THEN conjunct2, THEN conjunct2, THEN conjunct2, THEN conjunct2, THEN conjunct2,
      THEN conjunct1, THEN mp, OF wr]
  obtain line where wl: "writerow ?fns (Row ?r' []) = Inr line" and lw: "length line = length ?fns"
    and lf: "\<forall>p<length ?fns. ?fns ! p \<notin> set ?cols \<longrightarrow>
        line ! p = (case dict_get ?r (?fns ! p) of Some c \<Rightarrow> csv_field c | None \<Rightarrow> [])"
    by blast
  from lf [rule_format, of 0] n have "line ! 0 = ''r1''" by (simp add: dict_get_def)
  with wl lw have written: "\<exists>line. writerow ?fns (Row ?r' []) = Inr line \<and> length line = 2
      \<and> line ! 0 = ''r1''"
    by simp
  have sp: "[''x''] \<noteq> ([]::string list)" by simp
  from r2 [THEN conjunct2, THEN conjunct2, THEN conjunct2, THEN conjunct2, THEN conjunct2,
      THEN conjunct2, THEN mp, OF sp]
  have refused: "writerow ?fns (Row ?r' [''x'']) = Inl FieldsNotInFieldnames" .
  let ?ls = "[[''r1'', ''a'', ''x''], [''r2'']]"
  let ?v = "disk [''in.csv'' \<mapsto> ?fns # ?ls]"
  have long: "files ?v ''in.csv'' = Some (?fns # ?ls) \<and> (\<exists>r\<in>set ?ls. length ?fns < length r)"
    by (simp add: disk_def)
  from tokenization_frame_effect [where draws = "\<lambda>i. []" and cols = ?cols
      and token_method = "''sequential''" and token_map_file = "''map.csv''"
      and input_file = "''in.csv''" and output_file = "''out.csv''" and w = ?v
      and fieldnames = ?fns and rs = ?ls,
      THEN conjunct2, THEN conjunct2, THEN conjunct2, THEN conjunct2, THEN conjunct2,
      THEN conjunct1, THEN mp, OF long]
  have aborted: "\<forall>w'. tokenize_data (\<lambda>i. []) ''in.csv'' ''out.csv'' ?cols ''sequential''
      ''map.csv'' ?v \<noteq> Some (Inr (), w')" .
  from pre have ld: "load_error ?w ''map.csv'' = None" by simp
  from ld emitted row keys written refused aborted show ?thesis by (intro conjI)
qed

text \<open>
  The claim as stated, an output record for every input record and processing that
  continues, fails for a row longer than the header: \<^verbatim>\<open>DictReader\<close> keeps the surplus
  fields under the key \<^verbatim>\<open>None\<close>, \<^verbatim>\<open>DictWriter.writerow\<close> raises \<^verbatim>\<open>ValueError\<close> for that key (line
  136), and the run ends there. The record \<^verbatim>\<open>r2\<close> and the record \<^verbatim>\<open>r3\<close> after it are not
  written, and the mapping file is not saved.
\<close>

theorem long_row_aborts_counterexample:
  "\<exists>w'. tokenize_data (\<lambda>i. []) ''in.csv'' ''out.csv'' [''ssn''] ''sequential'' ''map.csv''
        (disk [''in.csv'' \<mapsto>
           [[''id'', ''ssn''], [''r1'', ''a''], [''r2'', ''b'', ''x''], [''r3'', ''c'']]])
      = Some (Inl FieldsNotInFieldnames, w')
    \<and> files w' ''out.csv'' = Some [[''id'', ''ssn''], [''r1'', ''1'']]
    \<and> files w' ''map.csv'' = None
    \<and> log w' = [ErrDuringTokenization FieldsNotInFieldnames]"
proof -
  let ?rs = "[[''r1'', ''a''], [''r2'', ''b'', ''x''], [''r3'', ''c'']]"
  let ?fns = "[''id'', ''ssn'']"
  let ?w = "disk [''in.csv'' \<mapsto> ?fns # ?rs]"
  let ?st = "\<lparr>token_map = [(''1'', Some ''a''), (''2'', Some ''b'')], next_draw = 0,
      warnings = []\<rparr>"
  let ?out = "[[''id'', ''ssn''], [''r1'', ''1'']]"
  have w0: "files ?w = [''in.csv'' \<mapsto> ?fns # ?rs]" "open_fault ?w = Map.empty"
    "read_fault ?w = Map.empty" "write_fault ?w = Map.empty" "rng ?w = 0" "log ?w = []"
    by (simp_all add: disk_def)
  have l: "loaded_map ?w ''map.csv'' = []" and ld: "load_error ?w ''map.csv'' = None"
    and ll: "load_log ?w ''map.csv'' = []"
    by (simp_all add: loaded_map_def load_error_def load_log_def w0)
  have g: "select_generator ''sequential'' = Inr GenSequential"
    by (simp add: select_generator_def)
  have i: "files ?w ''in.csv'' = Some (?fns # ?rs)" by (simp add: w0)
  have ne: "''in.csv'' \<noteq> ''out.csv''" by simp
  have ok: "open_fault ?w ''in.csv'' = None" "write_fault ?w ''out.csv'' = None"
    by (simp_all add: w0)
  have run0: "tokenize_rows GenSequential (\<lambda>i. []) [''ssn''] ?fns (dict_reader ?fns ?rs)
      \<lparr>token_map = [], next_draw = 0, warnings = []\<rparr> [?fns]
    = Some (Inl FieldsNotInFieldnames, ?out, ?st)"
    by code_simp
  have run: "tokenize_rows GenSequential (\<lambda>i. []) [''ssn''] ?fns (dict_reader ?fns ?rs)
      \<lparr>token_map = loaded_map ?w ''map.csv'', next_draw = rng ?w, warnings = []\<rparr> [?fns]
    = Some (Inl FieldsNotInFieldnames, ?out, ?st)"
    unfolding l w0(5) by (rule run0)
  from tokenize_data_row_failure [OF g ld i ne ok run] obtain w' where
    t: "tokenize_data (\<lambda>i. []) ''in.csv'' ''out.csv'' [''ssn''] ''sequential'' ''map.csv'' ?w
      = Some (Inl FieldsNotInFieldnames, w')"
    and f: "files w' = (files ?w)(''out.csv'' \<mapsto> ?out)"
    and lg: "log w' = log ?w @ load_log ?w ''map.csv'' @ warnings ?st
        @ [tokenize_error_msg ''in.csv'' FieldsNotInFieldnames]"
    by blast
  from f have fo: "files w' ''out.csv'' = Some ?out" and fm: "files w' ''map.csv'' = None"
    by (simp_all add: w0)
  from lg have "log w' = [ErrDuringTokenization FieldsNotInFieldnames]"
    by (simp add: w0 ll tokenize_error_msg_def)
  with t fo fm show ?thesis by blast
qed

end
